theory Spec2Isabelle
  imports Main "HOL-Library.Word"
begin

section \<open>Python values\<close>

text \<open>
  The module \<^verbatim>\<open>0x02-redis_basic/exercise.py\<close> is a thin layer over a Redis client.
  A byte string is a list of 8-bit characters. A Python \<^verbatim>\<open>str\<close> is held by its UTF-8
  encoding, which is what the client sends to the engine; \<open>utf8_valid\<close> tells the byte
  strings that are the encoding of a text. A float is the 64 bits of its IEEE 754 binary64
  form, as the interpreter holds it; equality of two \<open>PyFloat\<close> values is equality of
  their bits, which is not Python's \<^verbatim>\<open>==\<close> on floats (a NaN differs from itself there,
  and the two zeros are equal), so no property below compares floats.
\<close>

type_synonym bytes = string

datatype error =
    TypeError | AttributeError | ValueError | UnicodeDecodeError
  | DataError | ResponseError

datatype data =
    PyNone | PyBool bool | PyInt int | PyFloat "64 word" | PyStr string | PyBytes bytes

subsection \<open>\<^verbatim>\<open>bytes.decode('utf-8')\<close>\<close>

definition in_range :: "nat \<Rightarrow> nat \<Rightarrow> char \<Rightarrow> bool" where
  "in_range lo hi c = (lo \<le> of_char c \<and> (of_char c :: nat) \<le> hi)"

definition cont :: "char \<Rightarrow> bool" where
  "cont c = in_range 0x80 0xBF c"

text \<open>The strict decoder: no overlong form, no surrogate, nothing above U+10FFFF.\<close>

fun utf8_valid :: "bytes \<Rightarrow> bool" where
  "utf8_valid [] = True"
| "utf8_valid (a # bs) =
     (if in_range 0x00 0x7F a then utf8_valid bs
      else if in_range 0xC2 0xDF a then
        (case bs of b # r \<Rightarrow> cont b \<and> utf8_valid r | _ \<Rightarrow> False)
      else if in_range 0xE0 0xEF a then
        (case bs of
           b # c # r \<Rightarrow>
             in_range (if a = CHR 0xE0 then 0xA0 else 0x80)
                      (if a = CHR 0xED then 0x9F else 0xBF) b
             \<and> cont c \<and> utf8_valid r
         | _ \<Rightarrow> False)
      else if in_range 0xF0 0xF4 a then
        (case bs of
           b # c # d # r \<Rightarrow>
             in_range (if a = CHR 0xF0 then 0x90 else 0x80)
                      (if a = CHR 0xF4 then 0x8F else 0xBF) b
             \<and> cont c \<and> cont d \<and> utf8_valid r
         | _ \<Rightarrow> False)
      else False)"

definition decode_utf8 :: "bytes \<Rightarrow> error + string" where
  "decode_utf8 b = (if utf8_valid b then Inr b else Inl UnicodeDecodeError)"

subsection \<open>\<^verbatim>\<open>repr\<close> of an integer and \<^verbatim>\<open>int\<close> of a byte string\<close>

definition digit_char :: "nat \<Rightarrow> char" where
  "digit_char d = char_of (48 + d)"

definition is_digit :: "char \<Rightarrow> bool" where
  "is_digit c = in_range 48 57 c"

definition digit_val :: "char \<Rightarrow> nat" where
  "digit_val c = of_char c - 48"

function nat_digits :: "nat \<Rightarrow> string" where
  "nat_digits n =
     (if n < 10 then [digit_char n]
      else nat_digits (n div 10) @ [digit_char (n mod 10)])"
  by pat_completeness auto
termination
  by (relation "measure id") auto

declare nat_digits.simps [simp del]

definition repr_int :: "int \<Rightarrow> string" where
  "repr_int n = (if n < 0 then CHR ''-'' # nat_digits (nat (- n)) else nat_digits (nat n))"

text \<open>
  \<^verbatim>\<open>str\<close> and \<^verbatim>\<open>repr\<close> of an integer raise \<^verbatim>\<open>ValueError\<close> when it has more decimal
  digits than the interpreter's limit (\<^verbatim>\<open>sys.int_info.default_max_str_digits\<close>, 4300); the
  sign is not counted.
\<close>

definition max_str_digits :: nat where
  "max_str_digits = 4300"

definition str_int :: "int \<Rightarrow> error + string" where
  "str_int n =
     (if max_str_digits < length (nat_digits (nat \<bar>n\<bar>)) then Inl ValueError
      else Inr (repr_int n))"

text \<open>
  The syntax \<^verbatim>\<open>int(x)\<close> reads on a byte string: white space is stripped at both ends,
  one sign may lead, and the digits may be separated by single underscores.
\<close>

definition is_space :: "char \<Rightarrow> bool" where
  "is_space c = (c \<in> set [CHR 0x20, CHR 0x09, CHR 0x0A, CHR 0x0B, CHR 0x0C, CHR 0x0D])"

definition strip :: "string \<Rightarrow> string" where
  "strip s = rev (dropWhile is_space (rev (dropWhile is_space s)))"

fun py_digits :: "nat \<Rightarrow> string \<Rightarrow> nat option" where
  "py_digits acc [] = None"
| "py_digits acc (c # cs) =
     (if \<not> is_digit c then None
      else (case cs of
              [] \<Rightarrow> Some (10 * acc + digit_val c)
            | d # ds \<Rightarrow>
                if d = CHR ''_'' then py_digits (10 * acc + digit_val c) ds
                else py_digits (10 * acc + digit_val c) cs))"

definition parse_int :: "bytes \<Rightarrow> int option" where
  "parse_int b =
     (case strip b of
        [] \<Rightarrow> None
      | c # cs \<Rightarrow>
          if c = CHR ''-'' then map_option (\<lambda>n. - int n) (py_digits 0 cs)
          else if c = CHR ''+'' then map_option int (py_digits 0 cs)
          else map_option int (py_digits 0 (c # cs)))"

text \<open>
  \<^verbatim>\<open>int(x)\<close> on a byte string raises \<^verbatim>\<open>ValueError\<close> when \<open>x\<close> is not of that syntax, and
  when it has more digits than the limit (underscores and the sign are not counted).
\<close>

definition int_of_bytes :: "bytes \<Rightarrow> error + int" where
  "int_of_bytes b =
     (if max_str_digits < length (filter is_digit b) then Inl ValueError
      else (case parse_int b of None \<Rightarrow> Inl ValueError | Some n \<Rightarrow> Inr n))"

subsection \<open>\<^verbatim>\<open>repr\<close> of a byte string\<close>

text \<open>
  \<^verbatim>\<open>'{}'.format(b)\<close> of a byte string prints its \<^verbatim>\<open>repr\<close>: \<^verbatim>\<open>b'...'\<close>, in double quotes
  when the bytes hold a single quote and no double quote, with the quote, the backslash
  and every byte outside the printable ASCII range escaped.
\<close>

definition hex_digit :: "nat \<Rightarrow> char" where
  "hex_digit n = ''0123456789abcdef'' ! n"

definition repr_byte :: "char \<Rightarrow> char \<Rightarrow> string" where
  "repr_byte q c =
     (if c = q \<or> c = CHR 0x5C then [CHR 0x5C, c]
      else if c = CHR 0x09 then [CHR 0x5C, CHR ''t'']
      else if c = CHR 0x0A then [CHR 0x5C, CHR ''n'']
      else if c = CHR 0x0D then [CHR 0x5C, CHR ''r'']
      else if (of_char c :: nat) < 0x20 \<or> 0x7F \<le> (of_char c :: nat) then
        [CHR 0x5C, CHR ''x'', hex_digit (of_char c div 16), hex_digit (of_char c mod 16)]
      else [c])"

definition repr_bytes :: "bytes \<Rightarrow> string" where
  "repr_bytes b =
     (let q = (if CHR 0x27 \<in> set b \<and> CHR 0x22 \<notin> set b then CHR 0x22 else CHR 0x27)
      in CHR ''b'' # q # concat (map (repr_byte q) b) @ [q])"

subsection \<open>\<^verbatim>\<open>str\<close> of the argument tuple\<close>

text \<open>
  Two builtins are taken as parameters: \<^verbatim>\<open>repr\<close> of a text, which depends on the Unicode
  tables, and \<^verbatim>\<open>repr\<close> of a float, the shortest decimal that reads back. Neither raises.
\<close>

record python =
  repr_str :: "string \<Rightarrow> string"
  repr_float :: "64 word \<Rightarrow> string"

fun repr_data :: "python \<Rightarrow> data \<Rightarrow> error + string" where
  "repr_data py PyNone = Inr ''None''"
| "repr_data py (PyBool b) = Inr (if b then ''True'' else ''False'')"
| "repr_data py (PyInt n) = str_int n"
| "repr_data py (PyFloat f) = Inr (repr_float py f)"
| "repr_data py (PyStr s) = Inr (repr_str py s)"
| "repr_data py (PyBytes b) = Inr (repr_bytes b)"

fun repr_all :: "python \<Rightarrow> data list \<Rightarrow> error + string list" where
  "repr_all py [] = Inr []"
| "repr_all py (v # vs) =
     (case repr_data py v of
        Inl e \<Rightarrow> Inl e
      | Inr t \<Rightarrow> (case repr_all py vs of Inl e \<Rightarrow> Inl e | Inr ts \<Rightarrow> Inr (t # ts)))"

fun join :: "string \<Rightarrow> string list \<Rightarrow> string" where
  "join sep [] = []"
| "join sep [t] = t"
| "join sep (t # ts) = t @ sep @ join sep ts"

text \<open>
  \<^verbatim>\<open>str(args)\<close> of line 40: the items' \<^verbatim>\<open>repr\<close> between parentheses, with a comma after
  a single item. It raises when an item's \<^verbatim>\<open>repr\<close> does.
\<close>

definition str_args :: "python \<Rightarrow> data list \<Rightarrow> error + string" where
  "str_args py args =
     (case repr_all py args of
        Inl e \<Rightarrow> Inl e
      | Inr ts \<Rightarrow> Inr (''('' @ join '', '' ts @ (if length ts = 1 then '','' else []) @ '')''))"

section \<open>The store client\<close>

text \<open>
  Modelled from the spec: the client \<^verbatim>\<open>redis.Redis\<close> and the engine behind it, which the
  module imports and the repository does not hold. A key holds a string or a list; a
  command on a key of the other kind is refused and changes nothing. The engine's 64-bit
  bound on counters is not modelled.
\<close>

datatype rvalue = RString bytes | RList "bytes list"

type_synonym redis_db = "string \<Rightarrow> rvalue option"

text \<open>
  The client's encoder of command arguments: bytes go as they are, an integer and a
  float as their \<^verbatim>\<open>repr\<close>, a text as its UTF-8; a bool and any other object are refused.
\<close>

fun encode :: "python \<Rightarrow> data \<Rightarrow> error + bytes" where
  "encode py (PyBytes b) = Inr b"
| "encode py (PyBool _) = Inl DataError"
| "encode py (PyInt n) = str_int n"
| "encode py (PyFloat f) = Inr (repr_float py f)"
| "encode py (PyStr s) = Inr s"
| "encode py PyNone = Inl DataError"

definition redis_flushdb :: "redis_db \<Rightarrow> redis_db" where
  "redis_flushdb d = Map.empty"

definition redis_set :: "python \<Rightarrow> redis_db \<Rightarrow> string \<Rightarrow> data \<Rightarrow> error + redis_db" where
  "redis_set py d k v =
     (case encode py v of Inl e \<Rightarrow> Inl e | Inr b \<Rightarrow> Inr (d(k \<mapsto> RString b)))"

definition redis_get :: "redis_db \<Rightarrow> string \<Rightarrow> error + bytes option" where
  "redis_get d k =
     (case d k of
        None \<Rightarrow> Inr None
      | Some (RString b) \<Rightarrow> Inr (Some b)
      | Some (RList _) \<Rightarrow> Inl ResponseError)"

definition redis_exists :: "redis_db \<Rightarrow> string \<Rightarrow> nat" where
  "redis_exists d k = (case d k of None \<Rightarrow> 0 | Some _ \<Rightarrow> 1)"

text \<open>The engine increments a string only when it is the decimal form of an integer.\<close>

definition redis_int :: "bytes \<Rightarrow> int option" where
  "redis_int b =
     (case parse_int b of
        None \<Rightarrow> None
      | Some n \<Rightarrow> if repr_int n = b then Some n else None)"

definition redis_incr :: "redis_db \<Rightarrow> string \<Rightarrow> error + (int \<times> redis_db)" where
  "redis_incr d k =
     (case d k of
        None \<Rightarrow> Inr (1, d(k \<mapsto> RString (repr_int 1)))
      | Some (RString b) \<Rightarrow>
          (case redis_int b of
             None \<Rightarrow> Inl ResponseError
           | Some n \<Rightarrow> Inr (n + 1, d(k \<mapsto> RString (repr_int (n + 1)))))
      | Some (RList _) \<Rightarrow> Inl ResponseError)"

definition redis_rpush :: "python \<Rightarrow> redis_db \<Rightarrow> string \<Rightarrow> data \<Rightarrow> error + redis_db" where
  "redis_rpush py d k v =
     (case encode py v of
        Inl e \<Rightarrow> Inl e
      | Inr b \<Rightarrow>
          (case d k of
             None \<Rightarrow> Inr (d(k \<mapsto> RList [b]))
           | Some (RList xs) \<Rightarrow> Inr (d(k \<mapsto> RList (xs @ [b])))
           | Some (RString _) \<Rightarrow> Inl ResponseError))"

definition lrange_of :: "bytes list \<Rightarrow> int \<Rightarrow> int \<Rightarrow> bytes list" where
  "lrange_of xs start stop =
     (let n = int (length xs);
          s = (if start < 0 then max (n + start) 0 else start);
          e = (if stop < 0 then n + stop else min stop (n - 1))
      in if e < s \<or> n \<le> s then [] else take (nat (e - s + 1)) (drop (nat s) xs))"

definition redis_lrange :: "redis_db \<Rightarrow> string \<Rightarrow> int \<Rightarrow> int \<Rightarrow> error + bytes list" where
  "redis_lrange d k start stop =
     (case d k of
        None \<Rightarrow> Inr []
      | Some (RList xs) \<Rightarrow> Inr (lrange_of xs start stop)
      | Some (RString _) \<Rightarrow> Inl ResponseError)"

section \<open>The module\<close>

text \<open>
  A \<^verbatim>\<open>Cache\<close> object holds one attribute, \<^verbatim>\<open>_redis\<close>. \<open>live\<close> is the test
  \<^verbatim>\<open>isinstance(self._redis, redis.Redis)\<close>; \<open>db\<close> is the database behind the handle.
  A handle that is not a client (a stand-in put there by a test) is taken to answer
  \<^verbatim>\<open>set\<close> and \<^verbatim>\<open>get\<close> as the client does.
\<close>

record cache =
  live :: bool
  db :: redis_db

text \<open>
  A method of the class: its \<^verbatim>\<open>__qualname__\<close> and what a call does. A call takes the
  receiver, the positional and the keyword arguments, and gives what it returns or
  raises, with the receiver's state after it.
\<close>

record py_method =
  qualname :: string
  call :: "cache \<Rightarrow> data list \<Rightarrow> (string \<times> data) list \<Rightarrow> (error + data) \<times> cache"

subsection \<open>\<^verbatim>\<open>count_calls\<close>\<close>

text \<open>\<^verbatim>\<open>functools.wraps\<close> gives the wrapper the qualified name of the method it wraps.\<close>

definition count_calls :: "py_method \<Rightarrow> py_method" where
  "count_calls m =
     m\<lparr>call := (\<lambda>self args kwargs.
        if live self then
          (case redis_incr (db self) (qualname m) of
             Inl e \<Rightarrow> (Inl e, self)
           | Inr (_, d) \<Rightarrow> call m (self\<lparr>db := d\<rparr>) args kwargs)
        else call m self args kwargs)\<rparr>"

subsection \<open>\<^verbatim>\<open>call_history\<close>\<close>

text \<open>
  On line 40 the argument \<^verbatim>\<open>str(args)\<close> is evaluated before \<^verbatim>\<open>rpush\<close> is called, so
  when it raises nothing has been recorded.
\<close>

definition call_history :: "python \<Rightarrow> py_method \<Rightarrow> py_method" where
  "call_history py m =
     m\<lparr>call := (\<lambda>self args kwargs.
        let in_key = qualname m @ '':inputs'';
            out_key = qualname m @ '':outputs''
        in case (if live self
                 then (case str_args py args of
                         Inl e \<Rightarrow> Inl e
                       | Inr s \<Rightarrow>
                           (case redis_rpush py (db self) in_key (PyStr s) of
                              Inl e \<Rightarrow> Inl e
                            | Inr d \<Rightarrow> Inr (self\<lparr>db := d\<rparr>)))
                 else Inr self) of
             Inl e \<Rightarrow> (Inl e, self)
           | Inr self1 \<Rightarrow>
               (case call m self1 args kwargs of
                  (Inl e, self2) \<Rightarrow> (Inl e, self2)
                | (Inr output, self2) \<Rightarrow>
                    if live self2 then
                      (case redis_rpush py (db self2) out_key output of
                         Inl e \<Rightarrow> (Inl e, self2)
                       | Inr d \<Rightarrow> (Inr output, self2\<lparr>db := d\<rparr>))
                    else (Inr output, self2)))\<rparr>"

subsection \<open>\<^verbatim>\<open>class Cache\<close>\<close>

text \<open>\<^verbatim>\<open>__init__\<close> connects and flushes the database it finds, \<open>d0\<close>.\<close>

definition Cache_init :: "redis_db \<Rightarrow> cache" where
  "Cache_init d0 = \<lparr>live = True, db = redis_flushdb d0\<rparr>"

text \<open>
  How Python binds the one parameter \<^verbatim>\<open>data\<close> of \<^verbatim>\<open>store\<close>: from one positional or
  one keyword argument; any other call raises \<^verbatim>\<open>TypeError\<close>.
\<close>

definition bind_data :: "data list \<Rightarrow> (string \<times> data) list \<Rightarrow> error + data" where
  "bind_data args kwargs =
     (if length args = 1 \<and> kwargs = [] then Inr (hd args)
      else if args = [] \<and> length kwargs = 1 \<and> fst (hd kwargs) = ''data''
        then Inr (snd (hd kwargs))
      else Inl TypeError)"

text \<open>
  The text \<^verbatim>\<open>str(uuid.uuid4())\<close>: 36 characters, lower-case hexadecimal digits in groups
  of 8, 4, 4, 4 and 12 with hyphens between, the version digit 4 and a variant digit.
  The draw is random, so \<^verbatim>\<open>store\<close> takes it as a parameter.
\<close>

definition is_hex :: "char \<Rightarrow> bool" where
  "is_hex c = (c \<in> set ''0123456789abcdef'')"

definition uuid4_text :: "string \<Rightarrow> bool" where
  "uuid4_text k =
     (length k = 36
      \<and> list_all is_hex (take 8 k) \<and> k ! 8 = CHR ''-''
      \<and> list_all is_hex (take 4 (drop 9 k)) \<and> k ! 13 = CHR ''-''
      \<and> k ! 14 = CHR ''4'' \<and> list_all is_hex (take 3 (drop 15 k)) \<and> k ! 18 = CHR ''-''
      \<and> k ! 19 \<in> set ''89ab'' \<and> list_all is_hex (take 3 (drop 20 k)) \<and> k ! 23 = CHR ''-''
      \<and> list_all is_hex (drop 24 k))"

text \<open>The body of \<^verbatim>\<open>store\<close>, before decoration; \<open>uuid\<close> is the draw of this call.\<close>

definition store_body :: "python \<Rightarrow> string \<Rightarrow> py_method" where
  "store_body py uuid =
     \<lparr>qualname = ''Cache.store'',
      call = (\<lambda>self args kwargs.
        case bind_data args kwargs of
          Inl e \<Rightarrow> (Inl e, self)
        | Inr data \<Rightarrow>
            let data_key = uuid in
            (case redis_set py (db self) data_key data of
               Inl e \<Rightarrow> (Inl e, self)
             | Inr d \<Rightarrow> (Inr (PyStr data_key), self\<lparr>db := d\<rparr>)))\<rparr>"

definition Cache_store :: "python \<Rightarrow> string \<Rightarrow> py_method" where
  "Cache_store py uuid = call_history py (count_calls (store_body py uuid))"

text \<open>
  \<^verbatim>\<open>get\<close>: the raw read is a byte string or \<^verbatim>\<open>None\<close>, and \<open>fn\<close>, when there is one,
  is applied to it whichever it is.
\<close>

definition raw :: "bytes option \<Rightarrow> data" where
  "raw r = (case r of None \<Rightarrow> PyNone | Some b \<Rightarrow> PyBytes b)"

definition Cache_get ::
  "cache \<Rightarrow> string \<Rightarrow> (bytes option \<Rightarrow> error + data) option \<Rightarrow> error + data" where
  "Cache_get self key fn =
     (case redis_get (db self) key of
        Inl e \<Rightarrow> Inl e
      | Inr data \<Rightarrow> (case fn of Some f \<Rightarrow> f data | None \<Rightarrow> Inr (raw data)))"

text \<open>\<^verbatim>\<open>lambda x: x.decode('utf-8')\<close>; \<^verbatim>\<open>None\<close> has no such attribute.\<close>

definition decode_fn :: "bytes option \<Rightarrow> error + data" where
  "decode_fn x =
     (case x of
        None \<Rightarrow> Inl AttributeError
      | Some b \<Rightarrow> (case decode_utf8 b of Inl e \<Rightarrow> Inl e | Inr s \<Rightarrow> Inr (PyStr s)))"

text \<open>\<^verbatim>\<open>lambda x: int(x)\<close>; \<^verbatim>\<open>int(None)\<close> is a \<^verbatim>\<open>TypeError\<close>.\<close>

definition int_fn :: "bytes option \<Rightarrow> error + data" where
  "int_fn x =
     (case x of
        None \<Rightarrow> Inl TypeError
      | Some b \<Rightarrow> (case int_of_bytes b of Inl e \<Rightarrow> Inl e | Inr n \<Rightarrow> Inr (PyInt n)))"

definition Cache_get_str :: "cache \<Rightarrow> string \<Rightarrow> error + data" where
  "Cache_get_str self key = Cache_get self key (Some decode_fn)"

definition Cache_get_int :: "cache \<Rightarrow> string \<Rightarrow> error + data" where
  "Cache_get_int self key = Cache_get self key (Some int_fn)"

subsection \<open>\<^verbatim>\<open>replay\<close>\<close>

text \<open>
  What \<^verbatim>\<open>replay\<close> is given: \<^verbatim>\<open>None\<close>, a callable with no \<^verbatim>\<open>__self__\<close>, or a bound
  method, whose owner has a \<^verbatim>\<open>_redis\<close> attribute or none.
\<close>

datatype callable = NoneFn | Unbound string | Bound string "cache option"

text \<open>The transcript loop over \<^verbatim>\<open>zip(fcn_inputs, fcn_outputs)\<close>: the lines printed, and
  how the loop ended.\<close>

fun replay_lines :: "string \<Rightarrow> (bytes \<times> bytes) list \<Rightarrow> string list \<times> (error + unit)" where
  "replay_lines fcn_name [] = ([], Inr ())"
| "replay_lines fcn_name ((fcn_input, fcn_output) # rest) =
     (case decode_utf8 fcn_input of
        Inl e \<Rightarrow> ([], Inl e)
      | Inr s \<Rightarrow>
          (case replay_lines fcn_name rest of
             (ls, r) \<Rightarrow>
               ((fcn_name @ ''(*'' @ s @ '') -> '' @ repr_bytes fcn_output) # ls, r)))"

text \<open>Lines 60 to 62: the counter as \<^verbatim>\<open>replay\<close> reads it.\<close>

definition call_count :: "redis_db \<Rightarrow> string \<Rightarrow> error + int" where
  "call_count d fcn_name =
     (if redis_exists d fcn_name \<noteq> 0 then
        (case redis_get d fcn_name of
           Inl e \<Rightarrow> Inl e
         | Inr None \<Rightarrow> Inl TypeError
         | Inr (Some b) \<Rightarrow> int_of_bytes b)
      else Inr 0)"

text \<open>
  \<^verbatim>\<open>replay\<close> gives the lines it prints and how it ended. The header is formatted, the
  count through \<^verbatim>\<open>str\<close>, before it is printed.
\<close>

definition replay :: "callable \<Rightarrow> string list \<times> (error + unit)" where
  "replay fn =
     (case fn of
        NoneFn \<Rightarrow> ([], Inr ())
      | Unbound _ \<Rightarrow> ([], Inr ())
      | Bound _ None \<Rightarrow> ([], Inr ())
      | Bound fcn_name (Some self) \<Rightarrow>
          if \<not> live self then ([], Inr ())
          else
            let redis_store = db self;
                in_key = fcn_name @ '':inputs'';
                out_key = fcn_name @ '':outputs''
            in (case call_count redis_store fcn_name of
                  Inl e \<Rightarrow> ([], Inl e)
                | Inr fcn_call_count \<Rightarrow>
                    (case str_int fcn_call_count of
                       Inl e \<Rightarrow> ([], Inl e)
                     | Inr count_text \<Rightarrow>
                         let header = fcn_name @ '' was called '' @ count_text @ '' times:''
                         in (case redis_lrange redis_store in_key 0 (- 1) of
                               Inl e \<Rightarrow> ([header], Inl e)
                             | Inr fcn_inputs \<Rightarrow>
                                 (case redis_lrange redis_store out_key 0 (- 1) of
                                    Inl e \<Rightarrow> ([header], Inl e)
                                  | Inr fcn_outputs \<Rightarrow>
                                      (case replay_lines fcn_name
                                              (zip fcn_inputs fcn_outputs) of
                                         (ls, r) \<Rightarrow> (header # ls, r)))))))"

subsection \<open>Successive calls\<close>

text \<open>
  A caller making one call of \<^verbatim>\<open>store\<close> after another on the same object, going on
  after a call that raises: each call is the draw, the positional and the keyword
  arguments; the results are collected in order.
\<close>

type_synonym store_call = "string \<times> data list \<times> (string \<times> data) list"

fun store_calls ::
  "python \<Rightarrow> cache \<Rightarrow> store_call list \<Rightarrow> (error + data) list \<times> cache" where
  "store_calls py self [] = ([], self)"
| "store_calls py self ((uuid, args, kwargs) # rest) =
     (case call (Cache_store py uuid) self args kwargs of
        (r, self1) \<Rightarrow>
          (case store_calls py self1 rest of
             (rs, self2) \<Rightarrow> (r # rs, self2)))"

text \<open>The two history lists as \<^verbatim>\<open>replay\<close> reads them (lines 64 and 65).\<close>

definition inputs_of :: "redis_db \<Rightarrow> string \<Rightarrow> error + bytes list" where
  "inputs_of d fcn_name = redis_lrange d (fcn_name @ '':inputs'') 0 (- 1)"

definition outputs_of :: "redis_db \<Rightarrow> string \<Rightarrow> error + bytes list" where
  "outputs_of d fcn_name = redis_lrange d (fcn_name @ '':outputs'') 0 (- 1)"

text \<open>The counter as the engine keeps it: no key yet, or an integer in decimal form.\<close>

definition counter_of :: "redis_db \<Rightarrow> string \<Rightarrow> int option" where
  "counter_of d name =
     (case d name of
        None \<Rightarrow> Some 0
      | Some (RString b) \<Rightarrow> redis_int b
      | Some (RList _) \<Rightarrow> None)"

subsection \<open>Notions the properties are stated with\<close>

text \<open>What \<^verbatim>\<open>store\<close> sends for its argument: the bound \<^verbatim>\<open>data\<close>, encoded.\<close>

definition payload :: "python \<Rightarrow> data list \<Rightarrow> (string \<times> data) list \<Rightarrow> error + bytes" where
  "payload py args kwargs =
     (case bind_data args kwargs of Inl e \<Rightarrow> Inl e | Inr v \<Rightarrow> encode py v)"

text \<open>
  What a call adds to the inputs list: the text \<^verbatim>\<open>str(args)\<close>, or nothing when
  \<^verbatim>\<open>str(args)\<close> raises.
\<close>

definition recorded_input :: "python \<Rightarrow> data list \<Rightarrow> string list" where
  "recorded_input py args = (case str_args py args of Inl _ \<Rightarrow> [] | Inr s \<Rightarrow> [s])"

text \<open>
  What a call of \<^verbatim>\<open>store\<close> returns or raises on a live object whose records are in
  order: the error of \<^verbatim>\<open>str(args)\<close>, else the error of binding or encoding the
  argument, else the key drawn.
\<close>

definition store_result :: "python \<Rightarrow> store_call \<Rightarrow> error + data" where
  "store_result py x =
     (case str_args py (fst (snd x)) of
        Inl e \<Rightarrow> Inl e
      | Inr _ \<Rightarrow>
          (case payload py (fst (snd x)) (snd (snd x)) of
             Inl e \<Rightarrow> Inl e
           | Inr _ \<Rightarrow> Inr (PyStr (fst x))))"

text \<open>
  A method that never touches the counter and the two history lists kept under its
  name, nor the handle.
\<close>

definition leaves_records :: "py_method \<Rightarrow> bool" where
  "leaves_records m =
     (\<forall>s args kwargs.
        live (snd (call m s args kwargs)) = live s
        \<and> db (snd (call m s args kwargs)) (qualname m) = db s (qualname m)
        \<and> db (snd (call m s args kwargs)) (qualname m @ '':inputs'')
            = db s (qualname m @ '':inputs'')
        \<and> db (snd (call m s args kwargs)) (qualname m @ '':outputs'')
            = db s (qualname m @ '':outputs''))"

text \<open>
  The records of \<open>name\<close> are in order: the counter is absent or an integer, and the
  two history keys are absent or lists.
\<close>

definition well_kept :: "redis_db \<Rightarrow> string \<Rightarrow> bool" where
  "well_kept d name =
     (counter_of d name \<noteq> None \<and> \<not> isl (inputs_of d name) \<and> \<not> isl (outputs_of d name))"

text \<open>
  The values that go through \<^verbatim>\<open>store\<close> and come back through a getter of the class: a
  text (a byte string that is the UTF-8 of a text), bytes, and an integer within the
  limit on digits. A bool is refused by the client, and a float has no getter.
\<close>

definition supported :: "data \<Rightarrow> bool" where
  "supported v =
     (case v of
        PyStr s \<Rightarrow> utf8_valid s
      | PyBytes _ \<Rightarrow> True
      | PyInt n \<Rightarrow> length (nat_digits (nat \<bar>n\<bar>)) \<le> max_str_digits
      | _ \<Rightarrow> False)"

text \<open>
  Reading a stored value back with the getter of its type: \<^verbatim>\<open>get_str\<close> for a text,
  \<^verbatim>\<open>get_int\<close> for an integer, \<^verbatim>\<open>get\<close> with no transform for anything else.
\<close>

definition fetch_back :: "cache \<Rightarrow> string \<Rightarrow> data \<Rightarrow> error + data" where
  "fetch_back self key v =
     (case v of
        PyStr _ \<Rightarrow> Cache_get_str self key
      | PyInt _ \<Rightarrow> Cache_get_int self key
      | _ \<Rightarrow> Cache_get self key None)"

subsection \<open>Values for the examples\<close>

text \<open>The least integer of 4301 digits.\<close>

definition over_limit :: int where
  "over_limit = 10 ^ 4300"

text \<open>
  The two builtins where the examples use them: \<^verbatim>\<open>repr\<close> of a text with no quote,
  backslash or unprintable character puts it between single quotes, and
  \<^verbatim>\<open>repr(1.5)\<close> is \<^verbatim>\<open>'1.5'\<close>, 1.5 being the float of bits \<^verbatim>\<open>0x3FF8000000000000\<close>.
\<close>

definition python_0 :: python where
  "python_0 =
     \<lparr>repr_str = (\<lambda>s. [CHR 0x27] @ s @ [CHR 0x27]),
      repr_float = (\<lambda>f. ''1.5'')\<rparr>"

section \<open>Properties\<close>

subsection \<open>Printing an integer and reading it back\<close>

lemma of_char_digit_char: "d < 10 \<Longrightarrow> (of_char (digit_char d) :: nat) = 48 + d"
  by (simp add: digit_char_def)

lemma is_digit_digit_char: "d < 10 \<Longrightarrow> is_digit (digit_char d)"
  by (simp add: is_digit_def in_range_def of_char_digit_char)

lemma digit_val_digit_char: "d < 10 \<Longrightarrow> digit_val (digit_char d) = d"
  by (simp add: digit_val_def of_char_digit_char)

lemma is_digit_not_special:
  "is_digit c \<Longrightarrow> \<not> is_space c \<and> c \<noteq> CHR ''-'' \<and> c \<noteq> CHR ''+'' \<and> c \<noteq> CHR ''_''"
  by (auto simp: is_digit_def in_range_def is_space_def)

lemma nat_digits_all: "list_all is_digit (nat_digits n)"
proof (induction n rule: nat_digits.induct)
  case (1 n)
  show ?case
  proof (cases "n < 10")
    case True
    then show ?thesis by (simp add: nat_digits.simps [of n] is_digit_digit_char)
  next
    case False
    with 1 show ?thesis by (simp add: nat_digits.simps [of n] is_digit_digit_char)
  qed
qed

lemma nat_digits_not_Nil: "nat_digits n \<noteq> []"
  by (subst nat_digits.simps) simp

text \<open>Reading a run of digits followed by one more digit.\<close>

lemma py_digits_snoc:
  "list_all is_digit ds \<Longrightarrow> is_digit c \<Longrightarrow>
     py_digits acc (ds @ [c]) = Some (10 * foldl (\<lambda>a x. 10 * a + digit_val x) acc ds + digit_val c)"
proof (induction ds arbitrary: acc)
  case Nil
  then show ?case by simp
next
  case (Cons d ds)
  then have "is_digit d" "list_all is_digit ds" by simp_all
  from Cons.IH [OF \<open>list_all is_digit ds\<close> \<open>is_digit c\<close>]
  have IH: "\<And>acc. py_digits acc (ds @ [c]) =
      Some (10 * foldl (\<lambda>a x. 10 * a + digit_val x) acc ds + digit_val c)" .
  show ?case
  proof (cases ds)
    case Nil
    with \<open>is_digit d\<close> \<open>is_digit c\<close> show ?thesis
      by (simp add: is_digit_not_special)
  next
    case (Cons e es)
    with \<open>list_all is_digit ds\<close> have "e \<noteq> CHR ''_''" by (simp add: is_digit_not_special)
    with Cons \<open>is_digit d\<close> IH [of "10 * acc + digit_val d"] show ?thesis by simp
  qed
qed

lemma py_digits_all:
  "list_all is_digit ds \<Longrightarrow> ds \<noteq> [] \<Longrightarrow>
     py_digits acc ds = Some (foldl (\<lambda>a x. 10 * a + digit_val x) acc ds)"
proof (induction ds rule: rev_induct)
  case Nil
  then show ?case by simp
next
  case (snoc c ds)
  then show ?case by (simp add: py_digits_snoc)
qed

lemma foldl_nat_digits: "foldl (\<lambda>a x. 10 * a + digit_val x) 0 (nat_digits n) = n"
proof (induction n rule: nat_digits.induct)
  case (1 n)
  show ?case
  proof (cases "n < 10")
    case True
    then show ?thesis by (simp add: nat_digits.simps [of n] digit_val_digit_char)
  next
    case False
    with 1 show ?thesis by (simp add: nat_digits.simps [of n] digit_val_digit_char)
  qed
qed

lemma py_digits_nat_digits: "py_digits 0 (nat_digits n) = Some n"
  by (simp add: py_digits_all nat_digits_all nat_digits_not_Nil foldl_nat_digits)

lemma strip_no_space: "list_all (\<lambda>c. \<not> is_space c) s \<Longrightarrow> strip s = s"
proof -
  assume a: "list_all (\<lambda>c. \<not> is_space c) s"
  have d: "\<And>xs. list_all (\<lambda>c. \<not> is_space c) xs \<Longrightarrow> dropWhile is_space xs = xs"
    by (case_tac xs) simp_all
  from a have "list_all (\<lambda>c. \<not> is_space c) (rev s)" by (simp add: list_all_iff)
  with a d show ?thesis by (simp add: strip_def)
qed

lemma nat_digits_no_space: "list_all (\<lambda>c. \<not> is_space c) (nat_digits n)"
  using nat_digits_all [of n] by (auto simp: list_all_iff is_digit_not_special)

lemma parse_int_repr_int: "parse_int (repr_int n) = Some n"
proof -
  obtain c cs where ds: "nat_digits (nat \<bar>n\<bar>) = c # cs"
    using nat_digits_not_Nil [of "nat \<bar>n\<bar>"] by (cases "nat_digits (nat \<bar>n\<bar>)") auto
  have c: "is_digit c" using nat_digits_all [of "nat \<bar>n\<bar>"] ds by simp
  show ?thesis
  proof (cases "n < 0")
    case True
    then have r: "repr_int n = CHR ''-'' # nat_digits (nat \<bar>n\<bar>)" by (simp add: repr_int_def)
    have "strip (repr_int n) = repr_int n"
      unfolding r using nat_digits_no_space [of "nat \<bar>n\<bar>"]
      by (intro strip_no_space) (simp add: is_space_def)
    with r True show ?thesis
      by (simp add: parse_int_def py_digits_nat_digits)
  next
    case False
    then have r: "repr_int n = nat_digits (nat \<bar>n\<bar>)" by (simp add: repr_int_def)
    have "strip (repr_int n) = repr_int n"
      unfolding r by (rule strip_no_space [OF nat_digits_no_space])
    moreover have "py_digits 0 (c # cs) = Some (nat \<bar>n\<bar>)"
      using py_digits_nat_digits [of "nat \<bar>n\<bar>"] ds by simp
    ultimately show ?thesis using r ds c False
      by (simp add: parse_int_def is_digit_not_special)
  qed
qed

lemma digits_of_repr_int: "filter is_digit (repr_int n) = nat_digits (nat \<bar>n\<bar>)"
proof -
  have "filter is_digit (nat_digits m) = nat_digits m" for m
    using nat_digits_all [of m] by (simp add: list_all_iff)
  moreover have "\<not> is_digit CHR ''-''" by (simp add: is_digit_def in_range_def)
  ultimately show ?thesis by (simp add: repr_int_def)
qed

text \<open>Within the limit on digits, \<^verbatim>\<open>int\<close> reads back what \<^verbatim>\<open>repr\<close> prints.\<close>

lemma int_of_bytes_repr_int:
  "length (nat_digits (nat \<bar>n\<bar>)) \<le> max_str_digits \<Longrightarrow> int_of_bytes (repr_int n) = Inr n"
  by (simp add: int_of_bytes_def digits_of_repr_int parse_int_repr_int)

lemma str_int_within:
  "length (nat_digits (nat \<bar>n\<bar>)) \<le> max_str_digits \<Longrightarrow> str_int n = Inr (repr_int n)"
  by (simp add: str_int_def)

lemma redis_int_repr_int: "redis_int (repr_int n) = Some n"
  by (simp add: redis_int_def parse_int_repr_int)

lemma redis_int_SomeD: "redis_int b = Some n \<Longrightarrow> b = repr_int n"
  by (auto simp: redis_int_def split: option.splits if_splits)

text \<open>The number of digits of a power of ten, and of a number below one.\<close>

lemma nat_digits_power10: "length (nat_digits (10 ^ k)) = Suc k"
proof (induction k)
  case 0
  show ?case by (simp add: nat_digits.simps [of "Suc 0"])
next
  case (Suc k)
  have "(10::nat) \<le> 10 * 10 ^ k" by simp
  then have "\<not> (10::nat) * 10 ^ k < 10" by linarith
  then show ?case using Suc by (simp add: nat_digits.simps [of "10 * 10 ^ k"])
qed

lemma nat_digits_below: "n < 10 ^ k \<Longrightarrow> 0 < k \<Longrightarrow> length (nat_digits n) \<le> k"
proof (induction n arbitrary: k rule: nat_digits.induct)
  case (1 n)
  show ?case
  proof (cases "n < 10")
    case True
    with "1.prems" show ?thesis by (simp add: nat_digits.simps [of n])
  next
    case False
    obtain j where k: "k = Suc j" using "1.prems"(2) by (cases k) auto
    from "1.prems"(1) k have "n div 10 < 10 ^ j" by (simp add: less_mult_imp_div_less mult.commute)
    moreover from False k "1.prems"(1) have "0 < j" by (cases j) auto
    ultimately have "length (nat_digits (n div 10)) \<le> j" using "1.IH" False by simp
    with False k show ?thesis by (simp add: nat_digits.simps [of n])
  qed
qed

lemma str_int_over_limit: "str_int over_limit = Inl ValueError"
proof -
  have "nat \<bar>(10::int) ^ k\<bar> = 10 ^ k" for k
    by (simp add: nat_power_eq)
  then have "length (nat_digits (nat \<bar>over_limit\<bar>)) = Suc 4300"
    unfolding over_limit_def by (simp only: nat_digits_power10)
  then show ?thesis by (simp add: str_int_def max_str_digits_def)
qed

lemma digit_val_le: "is_digit c \<Longrightarrow> digit_val c \<le> 9"
  unfolding is_digit_def in_range_def digit_val_def by linarith

lemma not_digit_underscore: "\<not> is_digit CHR ''_''" "\<not> is_digit CHR ''-''" "\<not> is_digit CHR ''+''"
  by (simp_all add: is_digit_def in_range_def)

lemma py_digits_bound:
  "py_digits acc s = Some m \<Longrightarrow>
     m < (acc + 1) * 10 ^ length (filter is_digit s) \<and> filter is_digit s \<noteq> []"
proof (induction acc s arbitrary: m rule: py_digits.induct)
  case (1 acc)
  then show ?case by simp
next
  case (2 acc c cs)
  from "2.prems" have c: "is_digit c" by (auto split: if_splits)
  let ?a = "10 * acc + digit_val c"
  have a: "?a + 1 \<le> 10 * (acc + 1)" using digit_val_le [OF c] by simp
  show ?case
  proof (cases cs)
    case Nil
    with "2.prems" c a show ?thesis by auto
  next
    case (Cons d ds)
    show ?thesis
    proof (cases "d = CHR ''_''")
      case True
      with "2.prems" c Cons have "py_digits ?a ds = Some m" by simp
      from "2.IH"(1) [OF _ Cons True this] c
      have "m < (?a + 1) * 10 ^ length (filter is_digit ds)" by simp
      also have "\<dots> \<le> (10 * (acc + 1)) * 10 ^ length (filter is_digit ds)"
        using a by (rule mult_le_mono1)
      finally show ?thesis using c Cons True by (simp add: not_digit_underscore algebra_simps)
    next
      case False
      with "2.prems" c Cons have "py_digits ?a cs = Some m" by simp
      from "2.IH"(2) [OF _ Cons False this] c
      have "m < (?a + 1) * 10 ^ length (filter is_digit cs)" by simp
      also have "\<dots> \<le> (10 * (acc + 1)) * 10 ^ length (filter is_digit cs)"
        using a by (rule mult_le_mono1)
      finally show ?thesis using c by (simp add: algebra_simps)
    qed
  qed
qed

lemma filter_digit_dropWhile: "filter is_digit (dropWhile is_space s) = filter is_digit s"
  by (induction s) (auto dest: is_digit_not_special)

lemma filter_digit_strip: "filter is_digit (strip s) = filter is_digit s"
  by (simp add: strip_def filter_digit_dropWhile flip: rev_filter)

text \<open>A number read from a byte string has no more digits than the string.\<close>

lemma parse_int_digits:
  assumes "parse_int b = Some n"
  shows "length (nat_digits (nat \<bar>n\<bar>)) \<le> length (filter is_digit b)"
proof -
  obtain c cs where st: "strip b = c # cs"
    using assms by (cases "strip b") (simp_all add: parse_int_def)
  have "\<exists>s. py_digits 0 s = Some (nat \<bar>n\<bar>) \<and> filter is_digit s = filter is_digit (strip b)"
  proof (cases "c = CHR ''-''")
    case True
    with assms st obtain m where "py_digits 0 cs = Some m" and "n = - int m"
      by (auto simp: parse_int_def)
    with True st show ?thesis by (intro exI [of _ cs]) (simp add: not_digit_underscore)
  next
    case False
    show ?thesis
    proof (cases "c = CHR ''+''")
      case True
      with assms st False obtain m where "py_digits 0 cs = Some m" and "n = int m"
        by (auto simp: parse_int_def)
      with True st show ?thesis by (intro exI [of _ cs]) (simp add: not_digit_underscore)
    next
      case plus: False
      with assms st False obtain m where "py_digits 0 (c # cs) = Some m" and "n = int m"
        by (auto simp: parse_int_def)
      with st show ?thesis by (intro exI [of _ "c # cs"]) simp
    qed
  qed
  then obtain s where s: "py_digits 0 s = Some (nat \<bar>n\<bar>)"
    and f: "filter is_digit s = filter is_digit b"
    by (auto simp: filter_digit_strip)
  from py_digits_bound [OF s] f
  have "nat \<bar>n\<bar> < 10 ^ length (filter is_digit b)" and "0 < length (filter is_digit b)"
    by simp_all
  then show ?thesis by (rule nat_digits_below)
qed

lemma int_of_bytes_printable: "int_of_bytes b = Inr n \<Longrightarrow> str_int n = Inr (repr_int n)"
proof -
  assume a: "int_of_bytes b = Inr n"
  then have "parse_int b = Some n" and "length (filter is_digit b) \<le> max_str_digits"
    by (auto simp: int_of_bytes_def split: if_splits option.splits)
  with parse_int_digits [of b n] show ?thesis by (simp add: str_int_def)
qed

lemma call_count_printable: "call_count d k = Inr n \<Longrightarrow> str_int n = Inr (repr_int n)"
proof -
  have "str_int 0 = Inr (repr_int 0)" by code_simp
  then show "call_count d k = Inr n \<Longrightarrow> str_int n = Inr (repr_int n)"
    by (auto simp: call_count_def dest: int_of_bytes_printable
        split: if_splits sum.splits option.splits)
qed

subsection \<open>Reading the store\<close>

lemma Cache_init_db: "db (Cache_init d0) = Map.empty" "live (Cache_init d0)"
  by (simp_all add: Cache_init_def redis_flushdb_def)

lemma redis_get_absent: "d k = None \<Longrightarrow> redis_get d k = Inr None"
  by (simp add: redis_get_def)

lemma str_int_0: "str_int 0 = Inr ''0''"
  by code_simp

lemma lrange_of_all: "lrange_of xs 0 (- 1) = xs"
  by (simp add: lrange_of_def Let_def)

lemma redis_lrange_all:
  "redis_lrange d k 0 (- 1) =
     (case d k of
        None \<Rightarrow> Inr []
      | Some (RList xs) \<Rightarrow> Inr xs
      | Some (RString _) \<Rightarrow> Inl ResponseError)"
  by (simp add: redis_lrange_def lrange_of_all split: option.splits rvalue.splits)

text \<open>
  Claim C5: \<^verbatim>\<open>Cache()\<close> flushes the database whatever it held, so right after it no key
  exists: a read of any key, with \<^verbatim>\<open>get\<close>, \<^verbatim>\<open>exists\<close> or \<^verbatim>\<open>lrange\<close>, finds no data.
\<close>

theorem flush_on_construction:
  "db (Cache_init d0) key = None
   \<and> redis_exists (db (Cache_init d0)) key = 0
   \<and> Cache_get (Cache_init d0) key None = Inr PyNone
   \<and> redis_lrange (db (Cache_init d0)) key 0 (- 1) = Inr []"
  by (simp add: Cache_init_db Cache_get_def redis_get_def redis_exists_def
      redis_lrange_def raw_def)

text \<open>
  Claim C6: for a key the store does not hold, \<^verbatim>\<open>get(key)\<close> with no transform returns
  \<^verbatim>\<open>None\<close>; it does not raise.
\<close>

theorem get_absent_no_transform:
  "db self key = None \<Longrightarrow> Cache_get self key None = Inr PyNone"
  by (simp add: Cache_get_def redis_get_absent raw_def)

theorem get_absent_no_transform_witness:
  "db (Cache_init Map.empty) ''missing'' = None
   \<and> Cache_get (Cache_init Map.empty) ''missing'' None = Inr PyNone"
  using get_absent_no_transform [of "Cache_init Map.empty" "''missing''"]
  by (simp add: Cache_init_db)

text \<open>
  Claim C4, as stated, says that \<^verbatim>\<open>get(key, fn)\<close> on an absent key returns \<^verbatim>\<open>None\<close>
  without applying \<open>fn\<close>. Line 102 applies \<open>fn\<close> whenever there is one: with the
  transform of \<^verbatim>\<open>get_int\<close> the call raises \<^verbatim>\<open>TypeError\<close>.
\<close>

theorem get_absent_transform_counterexample:
  "db (Cache_init Map.empty) ''missing'' = None
   \<and> Cache_get (Cache_init Map.empty) ''missing'' (Some int_fn) = Inl TypeError
   \<and> Cache_get (Cache_init Map.empty) ''missing'' (Some int_fn) \<noteq> Inr PyNone"
  by (simp add: Cache_init_db Cache_get_def redis_get_def int_fn_def)

text \<open>
  Claim C4, amended: for a key the store does not hold and a transform \<open>fn\<close>,
  \<^verbatim>\<open>get(key, fn)\<close> hands \<^verbatim>\<open>None\<close> to \<open>fn\<close> and returns or raises what \<open>fn\<close> does.
\<close>

theorem get_absent_applies_transform:
  "db self key = None \<Longrightarrow> Cache_get self key (Some fn) = fn None"
  by (simp add: Cache_get_def redis_get_absent)

theorem get_absent_applies_transform_witness:
  "db (Cache_init Map.empty) ''missing'' = None
   \<and> Cache_get (Cache_init Map.empty) ''missing'' (Some int_fn) = int_fn None"
  using get_absent_applies_transform [of "Cache_init Map.empty" "''missing''" int_fn]
  by (simp add: Cache_init_db)

text \<open>
  Claim C10: for a key the store does not hold, \<^verbatim>\<open>get_str\<close> and \<^verbatim>\<open>get_int\<close> raise,
  their transform being applied to \<^verbatim>\<open>None\<close>; \<^verbatim>\<open>get\<close> with no transform returns \<^verbatim>\<open>None\<close>.
\<close>

theorem typed_getters_raise_on_absent:
  "db self key = None \<Longrightarrow>
     Cache_get_str self key = Inl AttributeError
     \<and> Cache_get_int self key = Inl TypeError
     \<and> Cache_get self key None = Inr PyNone"
  by (simp add: Cache_get_str_def Cache_get_int_def Cache_get_def redis_get_absent
      decode_fn_def int_fn_def raw_def)

theorem typed_getters_raise_on_absent_witness:
  "db (Cache_init Map.empty) ''missing'' = None
   \<and> Cache_get_str (Cache_init Map.empty) ''missing'' = Inl AttributeError
   \<and> Cache_get_int (Cache_init Map.empty) ''missing'' = Inl TypeError
   \<and> Cache_get (Cache_init Map.empty) ''missing'' None = Inr PyNone"
  using typed_getters_raise_on_absent [of "Cache_init Map.empty" "''missing''"]
  by (simp add: Cache_init_db)

subsection \<open>Replay\<close>

text \<open>
  Claim C8: for an operation with no recorded call (no counter key, no history list),
  \<^verbatim>\<open>replay\<close> prints the header with a count of zero and no transcript line.
\<close>

theorem replay_zero_calls:
  assumes "live self" and "db self name = None"
    and "db self (name @ '':inputs'') = None" and "db self (name @ '':outputs'') = None"
  shows "replay (Bound name (Some self)) = ([name @ '' was called 0 times:''], Inr ())"
  using assms
  by (simp add: replay_def call_count_def redis_exists_def redis_lrange_all str_int_0)

theorem replay_zero_calls_witness:
  "live (Cache_init Map.empty) \<and> db (Cache_init Map.empty) ''Cache.store'' = None
   \<and> db (Cache_init Map.empty) (''Cache.store'' @ '':inputs'') = None
   \<and> db (Cache_init Map.empty) (''Cache.store'' @ '':outputs'') = None
   \<and> replay (Bound ''Cache.store'' (Some (Cache_init Map.empty)))
       = ([''Cache.store was called 0 times:''], Inr ())"
  using replay_zero_calls [of "Cache_init Map.empty" "''Cache.store''"]
  by (simp add: Cache_init_db)

lemma replay_lines_valid:
  "list_all (\<lambda>p. utf8_valid (fst p)) ps \<Longrightarrow>
     replay_lines name ps =
       (map (\<lambda>(i, out). name @ ''(*'' @ i @ '') -> '' @ repr_bytes out) ps, Inr ())"
  by (induction ps) (auto simp: decode_utf8_def)

lemma zip_valid_inputs:
  "list_all utf8_valid (take (length outs) ins) \<Longrightarrow>
     list_all (\<lambda>p. utf8_valid (fst p)) (zip ins outs)"
proof (induction ins arbitrary: outs)
  case Nil
  then show ?case by simp
next
  case (Cons i ins)
  then show ?case by (cases outs) simp_all
qed

text \<open>
  Claim C7: \<^verbatim>\<open>replay\<close> prints, after the header, one line \<^verbatim>\<open>name(*args) -> output\<close> for
  each pair of \<^verbatim>\<open>zip(inputs, outputs)\<close>, in order; when the lists differ in length it
  prints as many lines as the shorter list has and ends without an error.
\<close>

theorem replay_pairs_positionally:
  assumes "live self"
    and "call_count (db self) name = Inr n"
    and "inputs_of (db self) name = Inr ins"
    and "outputs_of (db self) name = Inr outs"
    and "list_all utf8_valid (take (length outs) ins)"
  shows "replay (Bound name (Some self)) =
           ((name @ '' was called '' @ repr_int n @ '' times:'')
              # map (\<lambda>(i, out). name @ ''(*'' @ i @ '') -> '' @ repr_bytes out) (zip ins outs),
            Inr ())
         \<and> length (fst (replay (Bound name (Some self)))) = 1 + min (length ins) (length outs)"
proof -
  have "replay_lines name (zip ins outs) =
      (map (\<lambda>(i, out). name @ ''(*'' @ i @ '') -> '' @ repr_bytes out) (zip ins outs), Inr ())"
    by (rule replay_lines_valid [OF zip_valid_inputs [OF assms(5)]])
  with assms(1-4) call_count_printable [OF assms(2)] show ?thesis
    by (simp add: replay_def inputs_of_def outputs_of_def)
qed

theorem replay_pairs_positionally_witness:
  "replay (Bound ''f''
      (Some \<lparr>live = True,
             db = [''f:inputs'' \<mapsto> RList [''(1,)'', ''(2,)''],
                   ''f:outputs'' \<mapsto> RList [''k1''],
                   ''f'' \<mapsto> RString ''2'']\<rparr>))
     = ([''f was called 2 times:'', ''f(*(1,)) -> b'' @ [CHR 0x27] @ ''k1'' @ [CHR 0x27]], Inr ())"
proof -
  let ?c = "\<lparr>live = True,
             db = [''f:inputs'' \<mapsto> RList [''(1,)'', ''(2,)''],
                   ''f:outputs'' \<mapsto> RList [''k1''],
                   ''f'' \<mapsto> RString ''2'']\<rparr>"
  have r2: "repr_int 2 = ''2''" by code_simp
  have i2: "int_of_bytes ''2'' = Inr 2" by code_simp
  have h2: "call_count (db ?c) ''f'' = Inr 2"
    by (simp add: call_count_def redis_exists_def redis_get_def i2)
  have h3: "inputs_of (db ?c) ''f'' = Inr [''(1,)'', ''(2,)'']"
    by (simp add: inputs_of_def redis_lrange_all)
  have h4: "outputs_of (db ?c) ''f'' = Inr [''k1'']"
    by (simp add: outputs_of_def redis_lrange_all)
  have h5: "list_all utf8_valid (take (length [''k1'']) [''(1,)'', ''(2,)''])"
    by (simp add: in_range_def)
  have rb: "repr_bytes ''k1'' = ''b'' @ [CHR 0x27] @ ''k1'' @ [CHR 0x27]"
    by (simp add: repr_bytes_def repr_byte_def Let_def)
  from replay_pairs_positionally [of ?c "''f''" 2, OF _ h2 h3 h4 h5]
  show ?thesis by (simp add: r2 rb)
qed

subsection \<open>The decorators\<close>

lemma redis_rpush_history:
  "redis_lrange d k 0 (- 1) = Inr xs \<Longrightarrow> encode py v = Inr b \<Longrightarrow>
     redis_rpush py d k v = Inr (d(k \<mapsto> RList (xs @ [b])))"
  by (auto simp: redis_rpush_def redis_lrange_all split: option.splits rvalue.splits)

lemma redis_incr_counter:
  "counter_of d k = Some n \<Longrightarrow>
     redis_incr d k = Inr (n + 1, d(k \<mapsto> RString (repr_int (n + 1))))"
  by (auto simp: redis_incr_def counter_of_def dest: redis_int_SomeD
      split: option.splits rvalue.splits)

lemma counter_of_other: "k' \<noteq> k \<Longrightarrow> counter_of (d(k' \<mapsto> v)) k = counter_of d k"
  by (simp add: counter_of_def)

text \<open>The decorated call on a live object when \<^verbatim>\<open>str(args)\<close> raises: nothing is touched.\<close>

lemma decorated_call_unprintable:
  "live c \<Longrightarrow> str_args py args = Inl e \<Longrightarrow>
     call (call_history py m) c args kwargs = (Inl e, c)"
  by (simp add: call_history_def Let_def)

text \<open>The decorated call on a live object, up to the wrapped call.\<close>

lemma decorated_call:
  assumes "live c" and "counter_of (db c) (qualname m) = Some n"
    and "inputs_of (db c) (qualname m) = Inr ins"
    and "str_args py args = Inr s"
  shows "call (call_history py (count_calls m)) c args kwargs =
     (case call m (c\<lparr>db := (db c)(qualname m @ '':inputs'' \<mapsto> RList (ins @ [s]),
                                qualname m \<mapsto> RString (repr_int (n + 1)))\<rparr>) args kwargs of
        (Inl e, s2) \<Rightarrow> (Inl e, s2)
      | (Inr out, s2) \<Rightarrow>
          if live s2 then
            (case redis_rpush py (db s2) (qualname m @ '':outputs'') out of
               Inl e \<Rightarrow> (Inl e, s2)
             | Inr d \<Rightarrow> (Inr out, s2\<lparr>db := d\<rparr>))
          else (Inr out, s2))"
proof -
  have ne: "qualname m @ '':inputs'' \<noteq> qualname m" by simp
  have push: "redis_rpush py (db c) (qualname m @ '':inputs'') (PyStr s)
      = Inr ((db c)(qualname m @ '':inputs'' \<mapsto> RList (ins @ [s])))"
    using assms(3) by (simp add: inputs_of_def redis_rpush_history)
  have incr: "redis_incr ((db c)(qualname m @ '':inputs'' \<mapsto> RList (ins @ [s]))) (qualname m)
      = Inr (n + 1, (db c)(qualname m @ '':inputs'' \<mapsto> RList (ins @ [s]),
                           qualname m \<mapsto> RString (repr_int (n + 1))))"
    using assms(2) ne by (intro redis_incr_counter) (simp add: counter_of_other)
  show ?thesis
    using assms(1,4) push incr
    by (simp add: call_history_def count_calls_def Let_def)
qed

lemma init_records:
  "counter_of (db (Cache_init d0)) name = Some 0"
  "inputs_of (db (Cache_init d0)) name = Inr []"
  "outputs_of (db (Cache_init d0)) name = Inr []"
  by (simp_all add: Cache_init_db counter_of_def inputs_of_def outputs_of_def redis_lrange_all)

lemma uuid4_text_not_name:
  assumes "uuid4_text k"
  shows "k \<noteq> ''Cache.store''" and "k \<noteq> ''Cache.store:inputs''"
    and "k \<noteq> ''Cache.store:outputs''" and "''Cache.store'' \<noteq> k"
    and "''Cache.store:inputs'' \<noteq> k" and "''Cache.store:outputs'' \<noteq> k"
  using assms by (auto simp: uuid4_text_def)

lemma store_body_call:
  "call (store_body py k) s args kwargs =
     (case payload py args kwargs of
        Inl e \<Rightarrow> (Inl e, s)
      | Inr b \<Rightarrow> (Inr (PyStr k), s\<lparr>db := (db s)(k \<mapsto> RString b)\<rparr>))"
  by (simp add: store_body_def payload_def redis_set_def Let_def split: sum.splits)

lemma store_body_qualname: "qualname (store_body py k) = ''Cache.store''"
  by (simp add: store_body_def)

lemma store_body_leaves_records: "uuid4_text k \<Longrightarrow> leaves_records (store_body py k)"
  using uuid4_text_not_name [of k]
  by (auto simp: leaves_records_def store_body_call store_body_qualname split: sum.splits)

lemma uuid_example_1: "uuid4_text ''123e4567-e89b-42d3-a456-426614174000''"
  by (simp add: uuid4_text_def is_hex_def)

lemma uuid_example_2: "uuid4_text ''0fd2a7c1-5b3e-4c6d-9e8f-7a6b5c4d3e2f''"
  by (simp add: uuid4_text_def is_hex_def)

text \<open>\<^verbatim>\<open>str(args)\<close> at the arguments of the examples.\<close>

lemma str_args_examples:
  "str_args python_0 [PyNone] = Inr ''(None,)''"
  "str_args python_0 [PyInt 5] = Inr ''(5,)''"
  "str_args python_0 [] = Inr ''()''"
  "str_args python_0 [PyInt over_limit] = Inl ValueError"
  "str_args python_0 [PyFloat 0x3FF8000000000000] = Inr ''(1.5,)''"
proof -
  have "str_int 5 = Inr ''5''" by code_simp
  then show "str_args python_0 [PyInt 5] = Inr ''(5,)''" by (simp add: str_args_def)
qed (simp_all add: str_args_def str_int_over_limit python_0_def)

text \<open>
  Claim C9: when the wrapped operation raises, the decorated call raises the same error
  with the input already appended and the counter already incremented, and with nothing
  appended to the outputs: the inputs list is one entry longer than the outputs list.
  The wrapped operation is reached when \<^verbatim>\<open>str(args)\<close> has returned.
\<close>

theorem failed_call_is_recorded:
  assumes "live c" and "counter_of (db c) (qualname m) = Some n"
    and "inputs_of (db c) (qualname m) = Inr ins"
    and "outputs_of (db c) (qualname m) = Inr outs"
    and "length ins = length outs"
    and "leaves_records m"
    and "str_args py args = Inr s"
    and "fst (call m (c\<lparr>db := (db c)(qualname m @ '':inputs'' \<mapsto> RList (ins @ [s]),
                               qualname m \<mapsto> RString (repr_int (n + 1)))\<rparr>) args kwargs) = Inl e"
  shows "fst (call (call_history py (count_calls m)) c args kwargs) = Inl e
     \<and> inputs_of (db (snd (call (call_history py (count_calls m)) c args kwargs))) (qualname m)
         = Inr (ins @ [s])
     \<and> counter_of (db (snd (call (call_history py (count_calls m)) c args kwargs))) (qualname m)
         = Some (n + 1)
     \<and> outputs_of (db (snd (call (call_history py (count_calls m)) c args kwargs))) (qualname m)
         = Inr outs
     \<and> length (ins @ [s]) = length outs + 1"
proof -
  let ?c1 = "c\<lparr>db := (db c)(qualname m @ '':inputs'' \<mapsto> RList (ins @ [s]),
                       qualname m \<mapsto> RString (repr_int (n + 1)))\<rparr>"
  obtain s2 where body: "call m ?c1 args kwargs = (Inl e, s2)"
    using assms(8) by (cases "call m ?c1 args kwargs") auto
  have whole: "call (call_history py (count_calls m)) c args kwargs = (Inl e, s2)"
    using decorated_call [OF assms(1-3) assms(7), of kwargs] body by simp
  have keep: "db s2 (qualname m) = db ?c1 (qualname m)"
    "db s2 (qualname m @ '':inputs'') = db ?c1 (qualname m @ '':inputs'')"
    "db s2 (qualname m @ '':outputs'') = db ?c1 (qualname m @ '':outputs'')"
    using assms(6) body unfolding leaves_records_def by (metis snd_conv)+
  have i: "inputs_of (db s2) (qualname m) = Inr (ins @ [s])"
    using keep(2) by (simp add: inputs_of_def redis_lrange_all)
  have n: "counter_of (db s2) (qualname m) = Some (n + 1)"
    using keep(1) by (simp add: counter_of_def redis_int_repr_int)
  have o: "outputs_of (db s2) (qualname m) = Inr outs"
    using keep(3) assms(4) by (simp add: outputs_of_def redis_lrange_all)
  from whole i n o assms(5) show ?thesis by simp
qed

theorem failed_call_is_recorded_witness:
  "fst (call (call_history python_0
               (count_calls (store_body python_0 ''123e4567-e89b-42d3-a456-426614174000'')))
          (Cache_init Map.empty) [PyNone] []) = Inl DataError
   \<and> inputs_of (db (snd (call (call_history python_0
               (count_calls (store_body python_0 ''123e4567-e89b-42d3-a456-426614174000'')))
          (Cache_init Map.empty) [PyNone] []))) ''Cache.store'' = Inr [''(None,)'']
   \<and> counter_of (db (snd (call (call_history python_0
               (count_calls (store_body python_0 ''123e4567-e89b-42d3-a456-426614174000'')))
          (Cache_init Map.empty) [PyNone] []))) ''Cache.store'' = Some 1
   \<and> outputs_of (db (snd (call (call_history python_0
               (count_calls (store_body python_0 ''123e4567-e89b-42d3-a456-426614174000'')))
          (Cache_init Map.empty) [PyNone] []))) ''Cache.store'' = Inr []"
proof -
  let ?m = "store_body python_0 ''123e4567-e89b-42d3-a456-426614174000''"
  have h2: "counter_of (db (Cache_init Map.empty)) (qualname ?m) = Some 0"
    and h3: "inputs_of (db (Cache_init Map.empty)) (qualname ?m) = Inr []"
    and h4: "outputs_of (db (Cache_init Map.empty)) (qualname ?m) = Inr []"
    by (simp_all add: init_records)
  have h5: "length ([] :: bytes list) = length ([] :: bytes list)" by simp
  have h7: "fst (call ?m s [PyNone] []) = Inl DataError" for s
    by (simp add: store_body_call payload_def bind_data_def)
  from failed_call_is_recorded [OF Cache_init_db(2) h2 h3 h4 h5
      store_body_leaves_records [OF uuid_example_1] str_args_examples(1) h7]
  show ?thesis by (simp add: store_body_qualname)
qed

subsection \<open>Calls of \<^verbatim>\<open>store\<close>\<close>

text \<open>One call of \<^verbatim>\<open>store\<close> on a live object whose records are in order.\<close>

lemma Cache_store_unprintable:
  "live c \<Longrightarrow> str_args py args = Inl e \<Longrightarrow>
     call (Cache_store py k) c args kwargs = (Inl e, c)"
  by (simp add: Cache_store_def decorated_call_unprintable)

lemma Cache_store_live:
  assumes "uuid4_text k" and "live c"
    and "counter_of (db c) ''Cache.store'' = Some n"
    and "inputs_of (db c) ''Cache.store'' = Inr ins"
    and "outputs_of (db c) ''Cache.store'' = Inr outs"
    and "str_args py args = Inr s"
  shows "call (Cache_store py k) c args kwargs =
     (case payload py args kwargs of
        Inl e \<Rightarrow>
          (Inl e, c\<lparr>db := (db c)(''Cache.store:inputs'' \<mapsto> RList (ins @ [s]),
                                  ''Cache.store'' \<mapsto> RString (repr_int (n + 1)))\<rparr>)
      | Inr b \<Rightarrow>
          (Inr (PyStr k),
           c\<lparr>db := (db c)(''Cache.store:inputs'' \<mapsto> RList (ins @ [s]),
                           ''Cache.store'' \<mapsto> RString (repr_int (n + 1)),
                           k \<mapsto> RString b,
                           ''Cache.store:outputs'' \<mapsto> RList (outs @ [k]))\<rparr>))"
proof -
  note nk = uuid4_text_not_name [OF assms(1)]
  let ?d1 = "(db c)(''Cache.store:inputs'' \<mapsto> RList (ins @ [s]),
                    ''Cache.store'' \<mapsto> RString (repr_int (n + 1)))"
  have c1: "counter_of (db c) (qualname (store_body py k)) = Some n"
    and i1: "inputs_of (db c) (qualname (store_body py k)) = Inr ins"
    using assms(3,4) by (simp_all add: store_body_qualname)
  note dec = decorated_call [OF assms(2) c1 i1 assms(6), of kwargs]
  show ?thesis
  proof (cases "payload py args kwargs")
    case (Inl e)
    then show ?thesis
      by (simp add: Cache_store_def dec store_body_call store_body_qualname)
  next
    case (Inr b)
    have "redis_lrange (?d1(k \<mapsto> RString b)) ''Cache.store:outputs'' 0 (- 1) = Inr outs"
      using assms(5) nk by (simp add: outputs_of_def redis_lrange_all)
    then have "redis_rpush py (?d1(k \<mapsto> RString b)) ''Cache.store:outputs'' (PyStr k)
        = Inr (?d1(k \<mapsto> RString b, ''Cache.store:outputs'' \<mapsto> RList (outs @ [k])))"
      by (rule redis_rpush_history) simp
    with Inr assms(2) show ?thesis
      by (simp add: Cache_store_def dec store_body_call store_body_qualname)
  qed
qed

text \<open>What a call leaves behind, read the way \<^verbatim>\<open>replay\<close> reads it.\<close>

lemma Cache_store_after:
  assumes "uuid4_text k" and "live c"
    and "counter_of (db c) ''Cache.store'' = Some n"
    and "inputs_of (db c) ''Cache.store'' = Inr ins"
    and "outputs_of (db c) ''Cache.store'' = Inr outs"
    and "call (Cache_store py k) c args kwargs = (r, c')"
  shows "live c'"
    and "counter_of (db c') ''Cache.store'' = Some (n + int (length (recorded_input py args)))"
    and "inputs_of (db c') ''Cache.store'' = Inr (ins @ recorded_input py args)"
    and "outputs_of (db c') ''Cache.store'' = Inr (outs @ (if isl r then [] else [k]))"
    and "\<not> isl r \<Longrightarrow> r = Inr (PyStr k) \<and> \<not> isl (str_args py args)"
    and "\<not> isl (str_args py args) \<Longrightarrow> payload py args kwargs = Inr b \<Longrightarrow>
           r = Inr (PyStr k) \<and> db c' k = Some (RString b)"
    and "\<not> isl (str_args py args) \<Longrightarrow> payload py args kwargs = Inl e \<Longrightarrow> r = Inl e"
    and "str_args py args = Inl e \<Longrightarrow> r = Inl e \<and> c' = c"
proof -
  note nk = uuid4_text_not_name [OF assms(1)]
  from assms(5) have o:
    "db c ''Cache.store:outputs'' = None \<and> outs = [] \<or> db c ''Cache.store:outputs'' = Some (RList outs)"
    by (auto simp: outputs_of_def redis_lrange_all split: option.splits rvalue.splits)
  have all: "live c'
     \<and> counter_of (db c') ''Cache.store'' = Some (n + int (length (recorded_input py args)))
     \<and> inputs_of (db c') ''Cache.store'' = Inr (ins @ recorded_input py args)
     \<and> outputs_of (db c') ''Cache.store'' = Inr (outs @ (if isl r then [] else [k]))
     \<and> (\<not> isl r \<longrightarrow> r = Inr (PyStr k) \<and> \<not> isl (str_args py args))
     \<and> (\<not> isl (str_args py args) \<longrightarrow> payload py args kwargs = Inr b \<longrightarrow>
           r = Inr (PyStr k) \<and> db c' k = Some (RString b))
     \<and> (\<not> isl (str_args py args) \<longrightarrow> payload py args kwargs = Inl e \<longrightarrow> r = Inl e)
     \<and> (str_args py args = Inl e \<longrightarrow> r = Inl e \<and> c' = c)"
  proof (cases "str_args py args")
    case (Inl e')
    from Cache_store_unprintable [OF assms(2) Inl, of k kwargs] assms(6)
    have "r = Inl e'" "c' = c" by simp_all
    with Inl assms(2-5) show ?thesis by (simp add: recorded_input_def)
  next
    case (Inr s)
    note step = Cache_store_live [OF assms(1-5) Inr, of kwargs]
    show ?thesis
    proof (cases "payload py args kwargs")
      case (Inl e')
      with step assms(6) have r: "r = Inl e'"
        and c': "c' = c\<lparr>db := (db c)(''Cache.store:inputs'' \<mapsto> RList (ins @ [s]),
                                  ''Cache.store'' \<mapsto> RString (repr_int (n + 1)))\<rparr>"
        by simp_all
      show ?thesis
        using Inl Inr assms(2,5) nk
        by (simp add: r c' recorded_input_def counter_of_def redis_int_repr_int
            inputs_of_def outputs_of_def redis_lrange_all)
    next
      case (Inr b')
      with step assms(6) have r: "r = Inr (PyStr k)"
        and c': "c' = c\<lparr>db := (db c)(''Cache.store:inputs'' \<mapsto> RList (ins @ [s]),
                           ''Cache.store'' \<mapsto> RString (repr_int (n + 1)),
                           k \<mapsto> RString b',
                           ''Cache.store:outputs'' \<mapsto> RList (outs @ [k]))\<rparr>"
        by simp_all
      show ?thesis
        using Inr \<open>str_args py args = Inr s\<close> assms(2) nk
        by (simp add: r c' recorded_input_def counter_of_def redis_int_repr_int
            inputs_of_def outputs_of_def redis_lrange_all)
    qed
  qed
  from all show "live c'"
    and "counter_of (db c') ''Cache.store'' = Some (n + int (length (recorded_input py args)))"
    and "inputs_of (db c') ''Cache.store'' = Inr (ins @ recorded_input py args)"
    and "outputs_of (db c') ''Cache.store'' = Inr (outs @ (if isl r then [] else [k]))"
    and "\<not> isl r \<Longrightarrow> r = Inr (PyStr k) \<and> \<not> isl (str_args py args)"
    and "\<not> isl (str_args py args) \<Longrightarrow> payload py args kwargs = Inr b \<Longrightarrow>
           r = Inr (PyStr k) \<and> db c' k = Some (RString b)"
    and "\<not> isl (str_args py args) \<Longrightarrow> payload py args kwargs = Inl e \<Longrightarrow> r = Inl e"
    and "str_args py args = Inl e \<Longrightarrow> r = Inl e \<and> c' = c"
    by blast+
qed

lemma store_calls_records:
  assumes "list_all (\<lambda>x. uuid4_text (fst x)) calls" and "live c"
    and "counter_of (db c) ''Cache.store'' = Some n"
    and "inputs_of (db c) ''Cache.store'' = Inr ins"
    and "outputs_of (db c) ''Cache.store'' = Inr outs"
    and "store_calls py c calls = (rs, c')"
  shows "live c'
     \<and> counter_of (db c') ''Cache.store''
         = Some (n + int (length (concat (map (\<lambda>x. recorded_input py (fst (snd x))) calls))))
     \<and> inputs_of (db c') ''Cache.store''
         = Inr (ins @ concat (map (\<lambda>x. recorded_input py (fst (snd x))) calls))
     \<and> outputs_of (db c') ''Cache.store''
         = Inr (outs @ map fst (filter (\<lambda>x. \<not> isl (snd x)) (zip (map fst calls) rs)))
     \<and> rs = map (store_result py) calls"
  using assms
proof (induction calls arbitrary: c n ins outs rs c')
  case Nil
  then show ?case by simp
next
  case (Cons x calls)
  obtain k args kwargs where x: "x = (k, args, kwargs)" by (cases x) auto
  obtain r c1 where one: "call (Cache_store py k) c args kwargs = (r, c1)"
    by (cases "call (Cache_store py k) c args kwargs") auto
  obtain rs1 c2 where more: "store_calls py c1 calls = (rs1, c2)"
    by (cases "store_calls py c1 calls") auto
  from Cons.prems(6) x one more have rs: "rs = r # rs1" and c': "c' = c2" by simp_all
  from Cons.prems(1) x have k: "uuid4_text k" and ks: "list_all (\<lambda>x. uuid4_text (fst x)) calls"
    by simp_all
  note after = Cache_store_after [OF k Cons.prems(2-5) one]
  have r: "r = store_result py x"
  proof (cases "str_args py args")
    case (Inl e)
    with after(8) [of e] x show ?thesis by (simp add: store_result_def)
  next
    case (Inr s)
    then have p: "\<not> isl (str_args py args)" by simp
    show ?thesis
    proof (cases "payload py args kwargs")
      case (Inl e)
      with after(7) [OF p, of e] Inr x show ?thesis by (simp add: store_result_def)
    next
      case (Inr b)
      with after(6) [OF p, of b] \<open>str_args py args = Inr s\<close> x show ?thesis
        by (simp add: store_result_def)
    qed
  qed
  from Cons.IH [OF ks after(1-4) more] x rs c' r show ?case
    by (simp add: add.assoc)
qed

lemma recorded_inputs_count:
  "length (concat (map (\<lambda>x. recorded_input py (fst (snd x))) calls))
     = length (filter (\<lambda>x. \<not> isl (str_args py (fst (snd x)))) calls)"
  by (induction calls) (auto simp: recorded_input_def split: sum.splits)

lemma recorded_inputs_all:
  "list_all (\<lambda>x. \<not> isl (str_args py (fst (snd x)))) calls \<Longrightarrow>
     length (concat (map (\<lambda>x. recorded_input py (fst (snd x))) calls)) = length calls"
  by (induction calls) (auto simp: recorded_input_def split: sum.splits)

lemma store_calls_from_init:
  assumes "list_all (\<lambda>x. uuid4_text (fst x)) calls"
  shows "live (snd (store_calls py (Cache_init d0) calls))"
    and "counter_of (db (snd (store_calls py (Cache_init d0) calls))) ''Cache.store''
           = Some (int (length (filter (\<lambda>x. \<not> isl (str_args py (fst (snd x)))) calls)))"
    and "inputs_of (db (snd (store_calls py (Cache_init d0) calls))) ''Cache.store''
           = Inr (concat (map (\<lambda>x. recorded_input py (fst (snd x))) calls))"
    and "outputs_of (db (snd (store_calls py (Cache_init d0) calls))) ''Cache.store''
           = Inr (map fst (filter (\<lambda>x. \<not> isl (snd x))
                    (zip (map fst calls) (map (store_result py) calls))))"
    and "fst (store_calls py (Cache_init d0) calls) = map (store_result py) calls"
proof -
  obtain rs c' where run: "store_calls py (Cache_init d0) calls = (rs, c')"
    by (cases "store_calls py (Cache_init d0) calls") auto
  from store_calls_records [OF assms Cache_init_db(2) init_records run] run
  show "live (snd (store_calls py (Cache_init d0) calls))"
    and "counter_of (db (snd (store_calls py (Cache_init d0) calls))) ''Cache.store''
           = Some (int (length (filter (\<lambda>x. \<not> isl (str_args py (fst (snd x)))) calls)))"
    and "inputs_of (db (snd (store_calls py (Cache_init d0) calls))) ''Cache.store''
           = Inr (concat (map (\<lambda>x. recorded_input py (fst (snd x))) calls))"
    and "outputs_of (db (snd (store_calls py (Cache_init d0) calls))) ''Cache.store''
           = Inr (map fst (filter (\<lambda>x. \<not> isl (snd x))
                    (zip (map fst calls) (map (store_result py) calls))))"
    and "fst (store_calls py (Cache_init d0) calls) = map (store_result py) calls"
    by (simp_all add: recorded_inputs_count)
qed

text \<open>When every call returned, each returned the key drawn and each input was printed.\<close>

lemma completed_results:
  "list_all (\<lambda>r. \<not> isl r) (map (store_result py) calls) \<Longrightarrow>
     map (store_result py) calls = map (\<lambda>out. Inr (PyStr out)) (map fst calls)
     \<and> list_all (\<lambda>x. \<not> isl (str_args py (fst (snd x)))) calls"
  by (induction calls) (auto simp: store_result_def split: sum.splits)

lemma filter_all_completed:
  "length ks = length rs \<Longrightarrow> list_all (\<lambda>r. \<not> isl r) rs \<Longrightarrow>
     map fst (filter (\<lambda>x. \<not> isl (snd x)) (zip ks rs)) = ks"
proof (induction ks arbitrary: rs)
  case Nil
  then show ?case by simp
next
  case (Cons k ks)
  then show ?case by (cases rs) simp_all
qed

lemma call_count_of_counter:
  assumes "counter_of d k = Some n" and "0 \<le> n" and "n < 10 ^ max_str_digits"
  shows "call_count d k = Inr n"
proof -
  have "nat \<bar>n\<bar> < 10 ^ max_str_digits"
    using assms(2,3) by (simp add: nat_less_iff)
  moreover have "0 < max_str_digits" by (simp add: max_str_digits_def)
  ultimately have "length (nat_digits (nat \<bar>n\<bar>)) \<le> max_str_digits"
    by (rule nat_digits_below)
  then have "int_of_bytes (repr_int n) = Inr n" by (rule int_of_bytes_repr_int)
  with assms(1) show ?thesis
    by (auto simp: counter_of_def call_count_def redis_exists_def redis_get_def
        dest: redis_int_SomeD split: option.splits rvalue.splits)
qed

lemma payload_one: "payload py [v] [] = encode py v"
  by (simp add: payload_def bind_data_def)

lemma store_result_examples:
  "store_result python_0 (k, [PyNone], []) = Inl DataError"
  "store_result python_0 (k, [PyInt 5], []) = Inr (PyStr k)"
  "store_result python_0 (k, [], [(''data'', PyBytes ''x'')]) = Inr (PyStr k)"
  "store_result python_0 (k, [PyInt over_limit], []) = Inl ValueError"
proof -
  have "str_int 5 = Inr ''5''" by code_simp
  then show "store_result python_0 (k, [PyInt 5], []) = Inr (PyStr k)"
    by (simp add: store_result_def str_args_examples payload_one)
qed (simp_all add: store_result_def str_args_examples payload_def bind_data_def)

lemma recorded_input_examples:
  "recorded_input python_0 [PyNone] = [''(None,)'']"
  "recorded_input python_0 [PyInt 5] = [''(5,)'']"
  "recorded_input python_0 [] = [''()'']"
  "recorded_input python_0 [PyInt over_limit] = []"
  by (simp_all add: recorded_input_def str_args_examples)

text \<open>
  Claim C3, as stated, says that after \<open>N\<close> calls of \<^verbatim>\<open>store\<close> the counter is \<open>N\<close>.
  A call whose argument is an integer of 4301 digits raises on line 40, in
  \<^verbatim>\<open>str(args)\<close>, before the counting wrapper runs: after this one call of a new
  \<^verbatim>\<open>Cache\<close> there is no counter.
\<close>

theorem counter_misses_unprintable_call_counterexample:
  "fst (store_calls python_0 (Cache_init Map.empty)
         [(''123e4567-e89b-42d3-a456-426614174000'', [PyInt over_limit], [])]) = [Inl ValueError]
   \<and> db (snd (store_calls python_0 (Cache_init Map.empty)
         [(''123e4567-e89b-42d3-a456-426614174000'', [PyInt over_limit], [])])) ''Cache.store'' = None
   \<and> counter_of (db (snd (store_calls python_0 (Cache_init Map.empty)
         [(''123e4567-e89b-42d3-a456-426614174000'', [PyInt over_limit], [])]))) ''Cache.store''
       \<noteq> Some 1"
proof -
  have "call (Cache_store python_0 ''123e4567-e89b-42d3-a456-426614174000'')
          (Cache_init Map.empty) [PyInt over_limit] [] = (Inl ValueError, Cache_init Map.empty)"
    by (rule Cache_store_unprintable [OF Cache_init_db(2) str_args_examples(4)])
  then show ?thesis by (simp add: Cache_init_db counter_of_def)
qed

text \<open>
  Claim C3, amended: after \<open>N\<close> calls of \<^verbatim>\<open>store\<close> on a new \<^verbatim>\<open>Cache\<close>, the counter
  under \<^verbatim>\<open>Cache.store\<close> is the number of those calls whose \<^verbatim>\<open>str(args)\<close> returned,
  whether the call then returned or raised; it is \<open>N\<close> when \<^verbatim>\<open>str(args)\<close> returned in
  every call, and \<^verbatim>\<open>replay\<close> then reads \<open>N\<close>, as long as \<open>N\<close> is within the limit on
  digits.
\<close>

theorem counter_counts_recorded_calls:
  assumes "list_all (\<lambda>x. uuid4_text (fst x)) calls"
  shows "counter_of (db (snd (store_calls py (Cache_init d0) calls))) ''Cache.store''
           = Some (int (length (filter (\<lambda>x. \<not> isl (str_args py (fst (snd x)))) calls)))
     \<and> (list_all (\<lambda>x. \<not> isl (str_args py (fst (snd x)))) calls \<longrightarrow>
          counter_of (db (snd (store_calls py (Cache_init d0) calls))) ''Cache.store''
            = Some (int (length calls)))
     \<and> (list_all (\<lambda>x. \<not> isl (str_args py (fst (snd x)))) calls
          \<and> int (length calls) < 10 ^ max_str_digits \<longrightarrow>
          call_count (db (snd (store_calls py (Cache_init d0) calls))) ''Cache.store''
            = Inr (int (length calls)))"
proof -
  note c = store_calls_from_init(2) [OF assms, of py d0]
  have all: "length (filter (\<lambda>x. \<not> isl (str_args py (fst (snd x)))) calls) = length calls"
    if "list_all (\<lambda>x. \<not> isl (str_args py (fst (snd x)))) calls"
    using that by (simp add: list_all_iff)
  show ?thesis
  proof (intro conjI impI)
    show "counter_of (db (snd (store_calls py (Cache_init d0) calls))) ''Cache.store''
           = Some (int (length (filter (\<lambda>x. \<not> isl (str_args py (fst (snd x)))) calls)))"
      by (rule c)
  next
    assume "list_all (\<lambda>x. \<not> isl (str_args py (fst (snd x)))) calls"
    with c all show "counter_of (db (snd (store_calls py (Cache_init d0) calls))) ''Cache.store''
            = Some (int (length calls))" by simp
  next
    assume a: "list_all (\<lambda>x. \<not> isl (str_args py (fst (snd x)))) calls
          \<and> int (length calls) < 10 ^ max_str_digits"
    with c all have "counter_of (db (snd (store_calls py (Cache_init d0) calls))) ''Cache.store''
            = Some (int (length calls))" by simp
    then show "call_count (db (snd (store_calls py (Cache_init d0) calls))) ''Cache.store''
            = Inr (int (length calls))"
      using a by (intro call_count_of_counter) simp_all
  qed
qed

theorem counter_counts_recorded_calls_witness:
  "counter_of (db (snd (store_calls python_0 (Cache_init Map.empty)
        [(''123e4567-e89b-42d3-a456-426614174000'', [PyInt 5], []),
         (''0fd2a7c1-5b3e-4c6d-9e8f-7a6b5c4d3e2f'', [PyNone], []),
         (''123e4567-e89b-42d3-a456-426614174000'', [PyInt over_limit], [])])))
     ''Cache.store'' = Some 2"
  using counter_counts_recorded_calls [of
      "[(''123e4567-e89b-42d3-a456-426614174000'', [PyInt 5], []),
        (''0fd2a7c1-5b3e-4c6d-9e8f-7a6b5c4d3e2f'', [PyNone], []),
        (''123e4567-e89b-42d3-a456-426614174000'', [PyInt over_limit], [])]"
      python_0 Map.empty]
  by (simp add: uuid_example_1 uuid_example_2 str_args_examples)

text \<open>
  Claim C2, as stated, says that the two lists have equal length after any completed
  call. After \<^verbatim>\<open>store(None)\<close>, which raises in the client, and \<^verbatim>\<open>store(5)\<close>, which
  returns, the inputs list has two entries and the outputs list one.
\<close>

theorem histories_out_of_step_counterexample:
  "fst (store_calls python_0 (Cache_init Map.empty)
        [(''123e4567-e89b-42d3-a456-426614174000'', [PyNone], []),
         (''0fd2a7c1-5b3e-4c6d-9e8f-7a6b5c4d3e2f'', [PyInt 5], [])])
     = [Inl DataError, Inr (PyStr ''0fd2a7c1-5b3e-4c6d-9e8f-7a6b5c4d3e2f'')]
   \<and> inputs_of (db (snd (store_calls python_0 (Cache_init Map.empty)
        [(''123e4567-e89b-42d3-a456-426614174000'', [PyNone], []),
         (''0fd2a7c1-5b3e-4c6d-9e8f-7a6b5c4d3e2f'', [PyInt 5], [])]))) ''Cache.store''
     = Inr [''(None,)'', ''(5,)'']
   \<and> outputs_of (db (snd (store_calls python_0 (Cache_init Map.empty)
        [(''123e4567-e89b-42d3-a456-426614174000'', [PyNone], []),
         (''0fd2a7c1-5b3e-4c6d-9e8f-7a6b5c4d3e2f'', [PyInt 5], [])]))) ''Cache.store''
     = Inr [''0fd2a7c1-5b3e-4c6d-9e8f-7a6b5c4d3e2f'']"
proof -
  let ?calls = "[(''123e4567-e89b-42d3-a456-426614174000'', [PyNone], []),
         (''0fd2a7c1-5b3e-4c6d-9e8f-7a6b5c4d3e2f'', [PyInt 5], [])]"
  have u: "list_all (\<lambda>x. uuid4_text (fst x)) ?calls"
    by (simp add: uuid_example_1 uuid_example_2)
  from store_calls_from_init(3,4,5) [OF u, of python_0 Map.empty]
  show ?thesis by (simp add: store_result_examples recorded_input_examples)
qed

text \<open>
  Claim C2, amended: after \<open>N\<close> calls of \<^verbatim>\<open>store\<close> on a new \<^verbatim>\<open>Cache\<close> that all
  returned, the inputs list and the outputs list both have length \<open>N\<close>, and the outputs
  list holds, in order, the keys the calls returned.
\<close>

theorem histories_in_step:
  assumes "list_all (\<lambda>x. uuid4_text (fst x)) calls"
    and "list_all (\<lambda>r. \<not> isl r) (fst (store_calls py (Cache_init d0) calls))"
  shows "inputs_of (db (snd (store_calls py (Cache_init d0) calls))) ''Cache.store''
           = Inr (concat (map (\<lambda>x. recorded_input py (fst (snd x))) calls))
     \<and> length (concat (map (\<lambda>x. recorded_input py (fst (snd x))) calls)) = length calls
     \<and> outputs_of (db (snd (store_calls py (Cache_init d0) calls))) ''Cache.store''
           = Inr (map fst calls)
     \<and> length (map fst calls) = length calls
     \<and> fst (store_calls py (Cache_init d0) calls) = map (\<lambda>out. Inr (PyStr out)) (map fst calls)"
proof -
  note fin = store_calls_from_init [OF assms(1), of py d0]
  from assms(2) fin(5) have compl: "list_all (\<lambda>r. \<not> isl r) (map (store_result py) calls)"
    by simp
  note cr = completed_results [OF compl]
  have "map fst (filter (\<lambda>x. \<not> isl (snd x)) (zip (map fst calls) (map (store_result py) calls)))
      = map fst calls"
    using compl by (intro filter_all_completed) simp_all
  with fin(4) have outs: "outputs_of (db (snd (store_calls py (Cache_init d0) calls))) ''Cache.store''
      = Inr (map fst calls)" by simp
  from cr have len: "length (concat (map (\<lambda>x. recorded_input py (fst (snd x))) calls)) = length calls"
    by (intro recorded_inputs_all) simp
  from fin(3) len outs fin(5) cr show ?thesis by simp
qed

theorem histories_in_step_witness:
  "inputs_of
     (db (snd (store_calls python_0 (Cache_init Map.empty)
        [(''123e4567-e89b-42d3-a456-426614174000'', [PyInt 5], []),
         (''0fd2a7c1-5b3e-4c6d-9e8f-7a6b5c4d3e2f'', [], [(''data'', PyBytes ''x'')])])))
     ''Cache.store'' = Inr [''(5,)'', ''()'']
   \<and> outputs_of
     (db (snd (store_calls python_0 (Cache_init Map.empty)
        [(''123e4567-e89b-42d3-a456-426614174000'', [PyInt 5], []),
         (''0fd2a7c1-5b3e-4c6d-9e8f-7a6b5c4d3e2f'', [], [(''data'', PyBytes ''x'')])])))
     ''Cache.store''
       = Inr [''123e4567-e89b-42d3-a456-426614174000'', ''0fd2a7c1-5b3e-4c6d-9e8f-7a6b5c4d3e2f'']
   \<and> fst (store_calls python_0 (Cache_init Map.empty)
        [(''123e4567-e89b-42d3-a456-426614174000'', [PyInt 5], []),
         (''0fd2a7c1-5b3e-4c6d-9e8f-7a6b5c4d3e2f'', [], [(''data'', PyBytes ''x'')])])
       = [Inr (PyStr ''123e4567-e89b-42d3-a456-426614174000''),
          Inr (PyStr ''0fd2a7c1-5b3e-4c6d-9e8f-7a6b5c4d3e2f'')]"
proof -
  let ?calls = "[(''123e4567-e89b-42d3-a456-426614174000'', [PyInt 5], []),
         (''0fd2a7c1-5b3e-4c6d-9e8f-7a6b5c4d3e2f'', [], [(''data'', PyBytes ''x'')])]"
  have u: "list_all (\<lambda>x. uuid4_text (fst x)) ?calls"
    by (simp add: uuid_example_1 uuid_example_2)
  from store_calls_from_init(5) [OF u, of python_0 Map.empty]
  have c: "list_all (\<lambda>r. \<not> isl r) (fst (store_calls python_0 (Cache_init Map.empty) ?calls))"
    by (simp add: store_result_examples)
  from histories_in_step [OF u c] show ?thesis by (simp add: recorded_input_examples)
qed

subsection \<open>Storing and reading back\<close>

lemma Cache_store_standin:
  "\<not> live c \<Longrightarrow>
     call (Cache_store py k) c args kwargs = call (store_body py k) c args kwargs"
  by (auto simp: Cache_store_def call_history_def count_calls_def Let_def store_body_call
      split: sum.splits)

lemma Cache_get_present:
  "db self key = Some (RString b) \<Longrightarrow>
     Cache_get self key fn = (case fn of Some f \<Rightarrow> f (Some b) | None \<Rightarrow> Inr (PyBytes b))"
  by (simp add: Cache_get_def redis_get_def raw_def split: option.splits)

lemma supported_encode: "supported v \<Longrightarrow> \<exists>b. encode py v = Inr b"
  by (cases v) (simp_all add: supported_def str_int_within)

lemma supported_printable: "supported v \<Longrightarrow> \<not> isl (str_args py [v])"
  by (cases v) (simp_all add: supported_def str_args_def str_int_within)

lemma fetch_back_present:
  assumes "supported v" and "encode py v = Inr b" and "db self key = Some (RString b)"
  shows "fetch_back self key v = Inr v"
  using assms
  by (cases v)
    (auto simp: fetch_back_def supported_def Cache_get_str_def Cache_get_int_def
      Cache_get_present decode_fn_def int_fn_def decode_utf8_def int_of_bytes_repr_int
      str_int_within)

text \<open>After a call that returned, the key drawn holds the argument as the client sent it.\<close>

lemma Cache_store_stored:
  assumes "uuid4_text k" and "well_kept (db c) ''Cache.store''"
    and "\<not> isl (str_args py args)" and "payload py args kwargs = Inr b"
  shows "fst (call (Cache_store py k) c args kwargs) = Inr (PyStr k)
     \<and> db (snd (call (Cache_store py k) c args kwargs)) k = Some (RString b)"
proof -
  obtain r c' where one: "call (Cache_store py k) c args kwargs = (r, c')"
    by (cases "call (Cache_store py k) c args kwargs") auto
  have "r = Inr (PyStr k) \<and> db c' k = Some (RString b)"
  proof (cases "live c")
    case True
    from assms(2) obtain n ins outs where
      "counter_of (db c) ''Cache.store'' = Some n"
      "inputs_of (db c) ''Cache.store'' = Inr ins"
      "outputs_of (db c) ''Cache.store'' = Inr outs"
      by (auto simp: well_kept_def isl_def) (metis sum.exhaust_sel isl_def)
    from Cache_store_after(6) [OF assms(1) True this one assms(3,4)] show ?thesis .
  next
    case False
    with one assms(4) show ?thesis
      by (auto simp: Cache_store_standin store_body_call)
  qed
  with one show ?thesis by simp
qed

text \<open>
  Claim C1, as stated, covers every integer and every float. \<^verbatim>\<open>store\<close> of an integer
  of 4301 digits raises \<^verbatim>\<open>ValueError\<close> and returns no key. \<^verbatim>\<open>store(1.5)\<close> returns a
  key, under which \<^verbatim>\<open>get\<close> gives the bytes \<^verbatim>\<open>1.5\<close>, \<^verbatim>\<open>get_str\<close> the text \<^verbatim>\<open>1.5\<close>, and
  \<^verbatim>\<open>get_int\<close> raises: no getter of the class gives the float.
\<close>

theorem store_then_fetch_counterexample:
  "fst (call (Cache_store python_0 ''123e4567-e89b-42d3-a456-426614174000'')
          (Cache_init Map.empty) [PyInt over_limit] []) = Inl ValueError
   \<and> fst (call (Cache_store python_0 ''123e4567-e89b-42d3-a456-426614174000'')
          (Cache_init Map.empty) [PyFloat 0x3FF8000000000000] [])
       = Inr (PyStr ''123e4567-e89b-42d3-a456-426614174000'')
   \<and> Cache_get
        (snd (call (Cache_store python_0 ''123e4567-e89b-42d3-a456-426614174000'')
          (Cache_init Map.empty) [PyFloat 0x3FF8000000000000] []))
        ''123e4567-e89b-42d3-a456-426614174000'' None = Inr (PyBytes ''1.5'')
   \<and> Cache_get_str
        (snd (call (Cache_store python_0 ''123e4567-e89b-42d3-a456-426614174000'')
          (Cache_init Map.empty) [PyFloat 0x3FF8000000000000] []))
        ''123e4567-e89b-42d3-a456-426614174000'' = Inr (PyStr ''1.5'')
   \<and> Cache_get_int
        (snd (call (Cache_store python_0 ''123e4567-e89b-42d3-a456-426614174000'')
          (Cache_init Map.empty) [PyFloat 0x3FF8000000000000] []))
        ''123e4567-e89b-42d3-a456-426614174000'' = Inl ValueError"
proof -
  have big: "call (Cache_store python_0 ''123e4567-e89b-42d3-a456-426614174000'')
          (Cache_init Map.empty) [PyInt over_limit] [] = (Inl ValueError, Cache_init Map.empty)"
    by (rule Cache_store_unprintable [OF Cache_init_db(2) str_args_examples(4)])
  have wk: "well_kept (db (Cache_init Map.empty)) ''Cache.store''"
    by (simp add: well_kept_def init_records)
  have p: "payload python_0 [PyFloat 0x3FF8000000000000] [] = Inr ''1.5''"
    by (simp add: payload_one python_0_def)
  have pr: "\<not> isl (str_args python_0 [PyFloat 0x3FF8000000000000])"
    by (simp add: str_args_examples)
  note st = Cache_store_stored [OF uuid_example_1 wk pr p]
  have i: "int_of_bytes ''1.5'' = Inl ValueError" by code_simp
  from big st show ?thesis
    by (simp add: Cache_get_present Cache_get_str_def Cache_get_int_def decode_fn_def
        int_fn_def decode_utf8_def i in_range_def)
qed

text \<open>
  Claim C1, amended: \<^verbatim>\<open>store(v)\<close> of a text, of bytes or of an integer within the limit
  on digits returns the key drawn, and reading that key back at once with the getter of
  the type of \<open>v\<close> (\<^verbatim>\<open>get_str\<close>, \<^verbatim>\<open>get\<close>, \<^verbatim>\<open>get_int\<close>) gives \<open>v\<close>.
\<close>

theorem store_then_fetch:
  assumes "uuid4_text k" and "well_kept (db c) ''Cache.store''" and "supported v"
  shows "fst (call (Cache_store py k) c [v] []) = Inr (PyStr k)
     \<and> fetch_back (snd (call (Cache_store py k) c [v] [])) k v = Inr v"
proof -
  obtain b where b: "encode py v = Inr b" using supported_encode [OF assms(3)] by blast
  then have p: "payload py [v] [] = Inr b" by (simp add: payload_one)
  note st = Cache_store_stored [OF assms(1,2) supported_printable [OF assms(3)] p]
  with fetch_back_present [OF assms(3) b, of "snd (call (Cache_store py k) c [v] [])" k]
  show ?thesis by simp
qed

theorem store_then_fetch_witness:
  "fst (call (Cache_store python_0 ''123e4567-e89b-42d3-a456-426614174000'')
          (Cache_init Map.empty) [PyInt 5] []) = Inr (PyStr ''123e4567-e89b-42d3-a456-426614174000'')
   \<and> Cache_get_int
        (snd (call (Cache_store python_0 ''123e4567-e89b-42d3-a456-426614174000'')
          (Cache_init Map.empty) [PyInt 5] []))
        ''123e4567-e89b-42d3-a456-426614174000'' = Inr (PyInt 5)
   \<and> Cache_get_str
        (snd (call (Cache_store python_0 ''0fd2a7c1-5b3e-4c6d-9e8f-7a6b5c4d3e2f'')
          (Cache_init Map.empty) [PyStr [CHR ''c'', CHR ''a'', CHR ''f'', CHR 0xC3, CHR 0xA9]] []))
        ''0fd2a7c1-5b3e-4c6d-9e8f-7a6b5c4d3e2f''
       = Inr (PyStr [CHR ''c'', CHR ''a'', CHR ''f'', CHR 0xC3, CHR 0xA9])
   \<and> Cache_get
        (snd (call (Cache_store python_0 ''0fd2a7c1-5b3e-4c6d-9e8f-7a6b5c4d3e2f'')
          (Cache_init Map.empty) [PyBytes [CHR 0xFF, CHR 0x00]] []))
        ''0fd2a7c1-5b3e-4c6d-9e8f-7a6b5c4d3e2f'' None
       = Inr (PyBytes [CHR 0xFF, CHR 0x00])"
proof -
  have wk: "well_kept (db (Cache_init Map.empty)) ''Cache.store''"
    by (simp add: well_kept_def init_records)
  have "length (nat_digits (nat \<bar>5\<bar>)) \<le> max_str_digits" by code_simp
  then have s1: "supported (PyInt 5)" by (simp add: supported_def)
  have s2: "supported (PyStr [CHR ''c'', CHR ''a'', CHR ''f'', CHR 0xC3, CHR 0xA9])"
    by (simp add: supported_def in_range_def cont_def)
  have s3: "supported (PyBytes [CHR 0xFF, CHR 0x00])" by (simp add: supported_def)
  from store_then_fetch [OF uuid_example_1 wk s1, of python_0]
    store_then_fetch [OF uuid_example_2 wk s2, of python_0]
    store_then_fetch [OF uuid_example_2 wk s3, of python_0]
  show ?thesis by (simp add: fetch_back_def)
qed

end
